theory Spec2Isabelle
  imports Complex_Main "HOL-Library.Word"
begin

section \<open>Data model\<close>

text \<open>
  The engine of \<^verbatim>\<open>src/inspector/main.py\<close> takes a Python \<^verbatim>\<open>bytes\<close> object and
  returns a Python \<^verbatim>\<open>str\<close> or \<^verbatim>\<open>None\<close>.  A \<^verbatim>\<open>bytes\<close> object is a list of 8-bit
  words; a \<^verbatim>\<open>str\<close> is the list of its code points (\<^verbatim>\<open>ord(c)\<close> of each character),
  so that \<^verbatim>\<open>len\<close> is \<open>length\<close>.  An encoding name is a string.

  The exceptions a decode attempt can raise are values of \<open>py_error\<close>; a call that can
  raise returns \<open>py_error + 'a\<close>, with \<open>Inl\<close> for the raised exception.
\<close>

type_synonym bytes = "8 word list"
type_synonym str = "nat list"

datatype py_error = UnicodeDecodeError | LookupError

section \<open>The codecs of the Python runtime\<close>

text \<open>
  \<^verbatim>\<open>content_bytes.decode(encoding)\<close> is a call into the Python runtime.  The codecs the
  engine names are not part of the repository; they are modelled here as far as the
  claims need them:
  \<^item> \<^verbatim>\<open>utf-8\<close> and \<^verbatim>\<open>latin-1\<close> are built into the interpreter and are modelled in full;
  \<^item> \<^verbatim>\<open>cp1251\<close>, \<^verbatim>\<open>iso-8859-2\<close> and \<^verbatim>\<open>cp1252\<close> are character-map codecs, modelled in
    full from the \<^verbatim>\<open>decoding_table\<close> of \<^verbatim>\<open>encodings/cp1251.py\<close>, \<^verbatim>\<open>encodings/iso8859_2.py\<close>
    and \<^verbatim>\<open>encodings/cp1252.py\<close>;
  \<^item> every other name (the multi-byte codecs \<^verbatim>\<open>shift_jis\<close>, \<^verbatim>\<open>euc-kr\<close>, \<^verbatim>\<open>big5\<close>, \<^verbatim>\<open>gbk\<close>
    and \<^verbatim>\<open>gb2312\<close>, which live in optional extension modules and rest on tables of
    thousands of entries) is looked up in a parameter of type \<open>codecs\<close>, which returns
    the decoded string or the exception raised (\<open>LookupError\<close> when the runtime does
    not know the name).
  All decoding is with \<^verbatim>\<open>errors='strict'\<close>, the default of \<^verbatim>\<open>bytes.decode\<close>.
\<close>

type_synonym codecs = "string \<Rightarrow> bytes \<Rightarrow> py_error + str"

subsection \<open>UTF-8\<close>

definition continuation :: "nat \<Rightarrow> bool" where
  "continuation b = (0x80 \<le> b \<and> b \<le> 0xBF)"

text \<open>
  The strict UTF-8 decoder accepts exactly the well-formed byte sequences of the Unicode
  standard: no overlong form, no surrogate, nothing above \<open>0x10FFFF\<close>, no truncated
  sequence.  \<open>None\<close> stands for \<^verbatim>\<open>UnicodeDecodeError\<close>.  The bytes are read as numbers.
\<close>

fun utf_8_scan :: "nat list \<Rightarrow> str option" where
  "utf_8_scan [] = Some []"
| "utf_8_scan (b0 # bs) =
     (if b0 < 0x80 then map_option ((#) b0) (utf_8_scan bs)
      else if 0xC2 \<le> b0 \<and> b0 \<le> 0xDF then
        (case bs of
           b1 # bs' \<Rightarrow>
             if continuation b1
             then map_option ((#) ((b0 - 0xC0) * 0x40 + (b1 - 0x80))) (utf_8_scan bs')
             else None
         | _ \<Rightarrow> None)
      else if 0xE0 \<le> b0 \<and> b0 \<le> 0xEF then
        (case bs of
           b1 # b2 # bs' \<Rightarrow>
             if (if b0 = 0xE0 then 0xA0 \<le> b1 \<and> b1 \<le> 0xBF
                 else if b0 = 0xED then 0x80 \<le> b1 \<and> b1 \<le> 0x9F
                 else continuation b1)
                \<and> continuation b2
             then map_option
                    ((#) ((b0 - 0xE0) * 0x1000 + (b1 - 0x80) * 0x40 + (b2 - 0x80)))
                    (utf_8_scan bs')
             else None
         | _ \<Rightarrow> None)
      else if 0xF0 \<le> b0 \<and> b0 \<le> 0xF4 then
        (case bs of
           b1 # b2 # b3 # bs' \<Rightarrow>
             if (if b0 = 0xF0 then 0x90 \<le> b1 \<and> b1 \<le> 0xBF
                 else if b0 = 0xF4 then 0x80 \<le> b1 \<and> b1 \<le> 0x8F
                 else continuation b1)
                \<and> continuation b2 \<and> continuation b3
             then map_option
                    ((#) ((b0 - 0xF0) * 0x40000 + (b1 - 0x80) * 0x1000
                          + (b2 - 0x80) * 0x40 + (b3 - 0x80)))
                    (utf_8_scan bs')
             else None
         | _ \<Rightarrow> None)
      else None)"

definition utf_8_decode :: "bytes \<Rightarrow> py_error + str" where
  "utf_8_decode content_bytes =
     (case utf_8_scan (map unat content_bytes) of
        None \<Rightarrow> Inl UnicodeDecodeError
      | Some s \<Rightarrow> Inr s)"

text \<open>
  \<^verbatim>\<open>text.encode("utf-8")\<close>, which the tests use to build their buffers.  A surrogate
  code point cannot be encoded (\<^verbatim>\<open>UnicodeEncodeError\<close>, here \<open>None\<close>).  A Python string
  holds code points up to \<open>0x10FFFF\<close> only.
\<close>

definition is_str :: "str \<Rightarrow> bool" where
  "is_str s = list_all (\<lambda>c. c \<le> 0x10FFFF) s"

definition utf_8_encode_char :: "nat \<Rightarrow> nat list option" where
  "utf_8_encode_char c =
     (if c < 0x80 then Some [c]
      else if c < 0x800 then Some [0xC0 + c div 0x40, 0x80 + c mod 0x40]
      else if c < 0x10000 then
        (if 0xD800 \<le> c \<and> c \<le> 0xDFFF then None
         else Some [0xE0 + c div 0x1000, 0x80 + c div 0x40 mod 0x40, 0x80 + c mod 0x40])
      else Some [0xF0 + c div 0x40000, 0x80 + c div 0x1000 mod 0x40,
                 0x80 + c div 0x40 mod 0x40, 0x80 + c mod 0x40])"

fun utf_8_encode_nat :: "str \<Rightarrow> nat list option" where
  "utf_8_encode_nat [] = Some []"
| "utf_8_encode_nat (c # s) =
     (case utf_8_encode_char c of
        None \<Rightarrow> None
      | Some bs \<Rightarrow> map_option ((@) bs) (utf_8_encode_nat s))"

definition utf_8_encode :: "str \<Rightarrow> bytes option" where
  "utf_8_encode s = map_option (map of_nat) (utf_8_encode_nat s)"

subsection \<open>Latin-1 and the character-map codecs\<close>

text \<open>Latin-1 maps every byte to the code point of the same value and never fails.\<close>

definition latin_1_decode :: "bytes \<Rightarrow> py_error + str" where
  "latin_1_decode content_bytes = Inr (map unat content_bytes)"

text \<open>
  A character-map codec decodes byte by byte through a table of 256 entries.  In the
  three tables used here the lower half is the identity, so only the upper half (bytes
  \<open>0x80\<close> to \<open>0xFF\<close>) is listed; \<open>None\<close> is an undefined entry, on which strict
  decoding raises \<^verbatim>\<open>UnicodeDecodeError\<close>.
\<close>

definition charmap_char :: "nat option list \<Rightarrow> nat \<Rightarrow> nat option" where
  "charmap_char upper b = (if b < 0x80 then Some b else upper ! (b - 0x80))"

definition charmap_decode :: "nat option list \<Rightarrow> bytes \<Rightarrow> py_error + str" where
  "charmap_decode upper content_bytes =
     (case those (map (\<lambda>b. charmap_char upper (unat b)) content_bytes) of
        None \<Rightarrow> Inl UnicodeDecodeError
      | Some s \<Rightarrow> Inr s)"

definition cp1251_table :: "nat option list" where
  "cp1251_table =
   [Some 0x0402, Some 0x0403, Some 0x201A, Some 0x0453, Some 0x201E, Some 0x2026, Some 0x2020, Some 0x2021,
    Some 0x20AC, Some 0x2030, Some 0x0409, Some 0x2039, Some 0x040A, Some 0x040C, Some 0x040B, Some 0x040F,
    Some 0x0452, Some 0x2018, Some 0x2019, Some 0x201C, Some 0x201D, Some 0x2022, Some 0x2013, Some 0x2014,
    None, Some 0x2122, Some 0x0459, Some 0x203A, Some 0x045A, Some 0x045C, Some 0x045B, Some 0x045F,
    Some 0x00A0, Some 0x040E, Some 0x045E, Some 0x0408, Some 0x00A4, Some 0x0490, Some 0x00A6, Some 0x00A7,
    Some 0x0401, Some 0x00A9, Some 0x0404, Some 0x00AB, Some 0x00AC, Some 0x00AD, Some 0x00AE, Some 0x0407,
    Some 0x00B0, Some 0x00B1, Some 0x0406, Some 0x0456, Some 0x0491, Some 0x00B5, Some 0x00B6, Some 0x00B7,
    Some 0x0451, Some 0x2116, Some 0x0454, Some 0x00BB, Some 0x0458, Some 0x0405, Some 0x0455, Some 0x0457,
    Some 0x0410, Some 0x0411, Some 0x0412, Some 0x0413, Some 0x0414, Some 0x0415, Some 0x0416, Some 0x0417,
    Some 0x0418, Some 0x0419, Some 0x041A, Some 0x041B, Some 0x041C, Some 0x041D, Some 0x041E, Some 0x041F,
    Some 0x0420, Some 0x0421, Some 0x0422, Some 0x0423, Some 0x0424, Some 0x0425, Some 0x0426, Some 0x0427,
    Some 0x0428, Some 0x0429, Some 0x042A, Some 0x042B, Some 0x042C, Some 0x042D, Some 0x042E, Some 0x042F,
    Some 0x0430, Some 0x0431, Some 0x0432, Some 0x0433, Some 0x0434, Some 0x0435, Some 0x0436, Some 0x0437,
    Some 0x0438, Some 0x0439, Some 0x043A, Some 0x043B, Some 0x043C, Some 0x043D, Some 0x043E, Some 0x043F,
    Some 0x0440, Some 0x0441, Some 0x0442, Some 0x0443, Some 0x0444, Some 0x0445, Some 0x0446, Some 0x0447,
    Some 0x0448, Some 0x0449, Some 0x044A, Some 0x044B, Some 0x044C, Some 0x044D, Some 0x044E, Some 0x044F]"

definition iso_8859_2_table :: "nat option list" where
  "iso_8859_2_table =
   [Some 0x0080, Some 0x0081, Some 0x0082, Some 0x0083, Some 0x0084, Some 0x0085, Some 0x0086, Some 0x0087,
    Some 0x0088, Some 0x0089, Some 0x008A, Some 0x008B, Some 0x008C, Some 0x008D, Some 0x008E, Some 0x008F,
    Some 0x0090, Some 0x0091, Some 0x0092, Some 0x0093, Some 0x0094, Some 0x0095, Some 0x0096, Some 0x0097,
    Some 0x0098, Some 0x0099, Some 0x009A, Some 0x009B, Some 0x009C, Some 0x009D, Some 0x009E, Some 0x009F,
    Some 0x00A0, Some 0x0104, Some 0x02D8, Some 0x0141, Some 0x00A4, Some 0x013D, Some 0x015A, Some 0x00A7,
    Some 0x00A8, Some 0x0160, Some 0x015E, Some 0x0164, Some 0x0179, Some 0x00AD, Some 0x017D, Some 0x017B,
    Some 0x00B0, Some 0x0105, Some 0x02DB, Some 0x0142, Some 0x00B4, Some 0x013E, Some 0x015B, Some 0x02C7,
    Some 0x00B8, Some 0x0161, Some 0x015F, Some 0x0165, Some 0x017A, Some 0x02DD, Some 0x017E, Some 0x017C,
    Some 0x0154, Some 0x00C1, Some 0x00C2, Some 0x0102, Some 0x00C4, Some 0x0139, Some 0x0106, Some 0x00C7,
    Some 0x010C, Some 0x00C9, Some 0x0118, Some 0x00CB, Some 0x011A, Some 0x00CD, Some 0x00CE, Some 0x010E,
    Some 0x0110, Some 0x0143, Some 0x0147, Some 0x00D3, Some 0x00D4, Some 0x0150, Some 0x00D6, Some 0x00D7,
    Some 0x0158, Some 0x016E, Some 0x00DA, Some 0x0170, Some 0x00DC, Some 0x00DD, Some 0x0162, Some 0x00DF,
    Some 0x0155, Some 0x00E1, Some 0x00E2, Some 0x0103, Some 0x00E4, Some 0x013A, Some 0x0107, Some 0x00E7,
    Some 0x010D, Some 0x00E9, Some 0x0119, Some 0x00EB, Some 0x011B, Some 0x00ED, Some 0x00EE, Some 0x010F,
    Some 0x0111, Some 0x0144, Some 0x0148, Some 0x00F3, Some 0x00F4, Some 0x0151, Some 0x00F6, Some 0x00F7,
    Some 0x0159, Some 0x016F, Some 0x00FA, Some 0x0171, Some 0x00FC, Some 0x00FD, Some 0x0163, Some 0x02D9]"

definition cp1252_table :: "nat option list" where
  "cp1252_table =
   [Some 0x20AC, None, Some 0x201A, Some 0x0192, Some 0x201E, Some 0x2026, Some 0x2020, Some 0x2021,
    Some 0x02C6, Some 0x2030, Some 0x0160, Some 0x2039, Some 0x0152, None, Some 0x017D, None,
    None, Some 0x2018, Some 0x2019, Some 0x201C, Some 0x201D, Some 0x2022, Some 0x2013, Some 0x2014,
    Some 0x02DC, Some 0x2122, Some 0x0161, Some 0x203A, Some 0x0153, None, Some 0x017E, Some 0x0178,
    Some 0x00A0, Some 0x00A1, Some 0x00A2, Some 0x00A3, Some 0x00A4, Some 0x00A5, Some 0x00A6, Some 0x00A7,
    Some 0x00A8, Some 0x00A9, Some 0x00AA, Some 0x00AB, Some 0x00AC, Some 0x00AD, Some 0x00AE, Some 0x00AF,
    Some 0x00B0, Some 0x00B1, Some 0x00B2, Some 0x00B3, Some 0x00B4, Some 0x00B5, Some 0x00B6, Some 0x00B7,
    Some 0x00B8, Some 0x00B9, Some 0x00BA, Some 0x00BB, Some 0x00BC, Some 0x00BD, Some 0x00BE, Some 0x00BF,
    Some 0x00C0, Some 0x00C1, Some 0x00C2, Some 0x00C3, Some 0x00C4, Some 0x00C5, Some 0x00C6, Some 0x00C7,
    Some 0x00C8, Some 0x00C9, Some 0x00CA, Some 0x00CB, Some 0x00CC, Some 0x00CD, Some 0x00CE, Some 0x00CF,
    Some 0x00D0, Some 0x00D1, Some 0x00D2, Some 0x00D3, Some 0x00D4, Some 0x00D5, Some 0x00D6, Some 0x00D7,
    Some 0x00D8, Some 0x00D9, Some 0x00DA, Some 0x00DB, Some 0x00DC, Some 0x00DD, Some 0x00DE, Some 0x00DF,
    Some 0x00E0, Some 0x00E1, Some 0x00E2, Some 0x00E3, Some 0x00E4, Some 0x00E5, Some 0x00E6, Some 0x00E7,
    Some 0x00E8, Some 0x00E9, Some 0x00EA, Some 0x00EB, Some 0x00EC, Some 0x00ED, Some 0x00EE, Some 0x00EF,
    Some 0x00F0, Some 0x00F1, Some 0x00F2, Some 0x00F3, Some 0x00F4, Some 0x00F5, Some 0x00F6, Some 0x00F7,
    Some 0x00F8, Some 0x00F9, Some 0x00FA, Some 0x00FB, Some 0x00FC, Some 0x00FD, Some 0x00FE, Some 0x00FF]"

subsection \<open>The call \<^verbatim>\<open>content_bytes.decode(encoding)\<close>\<close>

definition bytes_decode :: "codecs \<Rightarrow> bytes \<Rightarrow> string \<Rightarrow> py_error + str" where
  "bytes_decode rt content_bytes encoding =
     (if encoding = ''utf-8'' then utf_8_decode content_bytes
      else if encoding = ''latin-1'' then latin_1_decode content_bytes
      else if encoding = ''cp1251'' then charmap_decode cp1251_table content_bytes
      else if encoding = ''iso-8859-2'' then charmap_decode iso_8859_2_table content_bytes
      else if encoding = ''cp1252'' then charmap_decode cp1252_table content_bytes
      else rt encoding content_bytes)"

section \<open>The heuristics\<close>

text \<open>
  \<^verbatim>\<open>sum(1 for c in s if p(c))\<close>: the generator yields a \<open>1\<close> for each character that
  satisfies the condition, and \<^verbatim>\<open>sum\<close> adds them.
\<close>

definition sum_1_for :: "(nat \<Rightarrow> bool) \<Rightarrow> str \<Rightarrow> nat" where
  "sum_1_for p s = sum_list (map (\<lambda>c. 1) (filter p s))"

text \<open>
  Python's \<^verbatim>\<open>/\<close> on two ints and its comparisons with the literals \<^verbatim>\<open>0.3\<close>, \<^verbatim>\<open>0.5\<close> and
  \<^verbatim>\<open>0.1\<close> are modelled in exact rational arithmetic.  (CPython computes the quotient as
  the correctly rounded binary64 value and compares it with the binary64 value nearest
  to the literal; rounding is monotone, and the two readings can only differ for a
  string of more than \<open>2\<^sup>5\<^sup>2\<close> code points.)
\<close>

text \<open>
  \<^verbatim>\<open>_is_likely_text(decoded_str)\<close>, lines 19-26.  \<^verbatim>\<open>c not in "\t\n\r"\<close> excludes the
  code points 9, 10 and 13.
\<close>

definition is_likely_text :: "str \<Rightarrow> bool" where
  "is_likely_text decoded_str =
     (if decoded_str = [] then True
      else
        (let control_chars = sum_1_for (\<lambda>c. c < 32 \<and> c \<notin> set [9, 10, 13]) decoded_str
         in (of_nat control_chars :: rat) / of_nat (length decoded_str) \<le> 3 / 10))"

text \<open>
  \<^verbatim>\<open>_is_likely_misencoded_asian_text(decoded_str, encoding)\<close>, lines 29-44.
  \<^verbatim>\<open>decoded_str.count(" ")\<close> counts the code point 32.
\<close>

definition is_likely_misencoded_asian_text :: "str \<Rightarrow> string \<Rightarrow> bool" where
  "is_likely_misencoded_asian_text decoded_str encoding =
     (if encoding \<notin> set [''cp1252'', ''latin-1''] \<or> length decoded_str \<le> 3 then False
      else
        (let high_latin = sum_1_for (\<lambda>c. 0x0080 \<le> c \<and> c \<le> 0x024F) decoded_str;
             spaces = count_list decoded_str 32
         in (of_nat high_latin :: rat) / of_nat (length decoded_str) > 1 / 2
            \<and> (of_nat spaces :: rat) < of_nat (length decoded_str) * (1 / 10)))"

text \<open>
  \<^verbatim>\<open>c.isalpha() and ord(c) < 128\<close>: among the code points below 128 the alphabetic ones
  are the letters A-Z and a-z.
\<close>

definition isalpha_ascii :: "nat \<Rightarrow> bool" where
  "isalpha_ascii c = ((65 \<le> c \<and> c \<le> 90 \<or> 97 \<le> c \<and> c \<le> 122) \<and> c < 128)"

text \<open>
  \<^verbatim>\<open>_is_likely_misencoded_cross_asian(decoded_str, encoding)\<close>, lines 47-82.  The two
  patterns are two \<^verbatim>\<open>if\<close> statements in sequence, each returning \<^verbatim>\<open>True\<close> or falling
  through; the function ends with \<^verbatim>\<open>return False\<close>.
\<close>

definition is_likely_misencoded_cross_asian :: "str \<Rightarrow> string \<Rightarrow> bool" where
  "is_likely_misencoded_cross_asian decoded_str encoding =
     (if length decoded_str \<le> 3 then False
      else if encoding = ''shift_jis''
              \<and> (of_nat (sum_1_for (\<lambda>c. 0xFF61 \<le> c \<and> c \<le> 0xFF9F) decoded_str) :: rat)
                  / of_nat (length decoded_str) > 3 / 10
        then True
      else if encoding \<in> set [''big5'', ''gbk'', ''gb2312'', ''shift_jis'', ''euc-kr''] then
        (let ascii_chars = sum_1_for (\<lambda>c. c < 128) decoded_str;
             cjk_chars = sum_1_for (\<lambda>c. 0x4E00 \<le> c \<and> c \<le> 0x9FFF) decoded_str
         in if ascii_chars > 0 \<and> cjk_chars > 0 then
              (let ascii_letters = sum_1_for isalpha_ascii decoded_str
               in if ascii_letters \<ge> 2
                     \<and> (of_nat cjk_chars :: rat) / of_nat (length decoded_str) < 1 / 2
                  then True else False)
            else False)
      else False)"

section \<open>The fallback decoding engine\<close>

text \<open>\<^verbatim>\<open>common_encodings\<close>, lines 108-118.\<close>

definition common_encodings :: "string list" where
  "common_encodings =
     [''shift_jis'', ''euc-kr'', ''big5'', ''gbk'', ''gb2312'', ''cp1251'', ''iso-8859-2'',
      ''cp1252'', ''latin-1'']"

text \<open>
  The \<^verbatim>\<open>for encoding in common_encodings\<close> loop, lines 120-139, as a recursion over the
  encodings still to try.  Each \<^verbatim>\<open>continue\<close> is the recursive call on the rest; the
  \<^verbatim>\<open>except (UnicodeDecodeError, LookupError)\<close> clause catches both exceptions a decode
  attempt raises.  Running off the end of the list is \<^verbatim>\<open>return None\<close>, line 142.
\<close>

fun decode_loop :: "codecs \<Rightarrow> bytes \<Rightarrow> string list \<Rightarrow> str option" where
  "decode_loop rt content_bytes [] = None"
| "decode_loop rt content_bytes (encoding # rest) =
     (case bytes_decode rt content_bytes encoding of
        Inl UnicodeDecodeError \<Rightarrow> decode_loop rt content_bytes rest
      | Inl LookupError \<Rightarrow> decode_loop rt content_bytes rest
      | Inr decoded \<Rightarrow>
          if \<not> is_likely_text decoded then decode_loop rt content_bytes rest
          else if is_likely_misencoded_asian_text decoded encoding
            then decode_loop rt content_bytes rest
          else if is_likely_misencoded_cross_asian decoded encoding
            then decode_loop rt content_bytes rest
          else Some decoded)"

text \<open>
  \<^verbatim>\<open>decode_with_fallback(content_bytes)\<close>, lines 85-142.  The first \<^verbatim>\<open>try\<close> catches
  \<^verbatim>\<open>UnicodeDecodeError\<close> (and \<^verbatim>\<open>AttributeError\<close>, which a \<^verbatim>\<open>bytes\<close> argument cannot
  raise) but not \<^verbatim>\<open>LookupError\<close>, which would propagate to the caller: the result is
  \<open>Inl\<close> of the exception then, and \<open>Inr\<close> of the returned value (\<open>None\<close> for Python's
  \<^verbatim>\<open>None\<close>) otherwise.
\<close>

definition decode_with_fallback :: "codecs \<Rightarrow> bytes \<Rightarrow> py_error + str option" where
  "decode_with_fallback rt content_bytes =
     (case bytes_decode rt content_bytes ''utf-8'' of
        Inr decoded \<Rightarrow>
          if is_likely_text decoded then Inr (Some decoded)
          else Inr (decode_loop rt content_bytes common_encodings)
      | Inl UnicodeDecodeError \<Rightarrow> Inr (decode_loop rt content_bytes common_encodings)
      | Inl LookupError \<Rightarrow> Inl LookupError)"

section \<open>Notions the claims are stated with\<close>

text \<open>The number of control code points of a string: below 32, other than tab, newline
  and carriage return.\<close>

definition control_chars :: "str \<Rightarrow> nat" where
  "control_chars s = length (filter (\<lambda>c. c < 32 \<and> c \<noteq> 9 \<and> c \<noteq> 10 \<and> c \<noteq> 13) s)"

text \<open>
  A candidate is accepted with the text \<open>s\<close> when the buffer decodes to \<open>s\<close> under it and
  \<open>s\<close> passes the checks of that stage: the plausibility filter alone on the fast path,
  all three checks in the candidate list.
\<close>

definition accepted_fast :: "codecs \<Rightarrow> bytes \<Rightarrow> str \<Rightarrow> bool" where
  "accepted_fast rt bs s = (bytes_decode rt bs ''utf-8'' = Inr s \<and> is_likely_text s)"

definition accepted :: "codecs \<Rightarrow> bytes \<Rightarrow> string \<Rightarrow> str \<Rightarrow> bool" where
  "accepted rt bs enc s =
     (bytes_decode rt bs enc = Inr s \<and> is_likely_text s
      \<and> \<not> is_likely_misencoded_asian_text s enc
      \<and> \<not> is_likely_misencoded_cross_asian s enc)"

text \<open>
  A Python runtime built without the optional multi-byte codec modules: every name
  beyond the codecs modelled above is unknown to it.
\<close>

definition no_cjk_codecs :: codecs where
  "no_cjk_codecs encoding content_bytes = Inl LookupError"

section \<open>The buffers of the test suite\<close>

text \<open>
  The strings of \<^verbatim>\<open>test_decode_with_fallback_various_encodings\<close>
  (\<^verbatim>\<open>src/tests/test_main.py\<close>, lines 7-31), as code points, and the buffers
  \<^verbatim>\<open>text.encode(encoding)\<close> the test builds from them.
\<close>

definition utf_8_text :: str where
  "utf_8_text =
     [0x48, 0x65, 0x6C, 0x6C, 0x6F, 0x2C, 0x20, 0x57, 0x6F, 0x72, 0x6C, 0x64, 0x21]"

definition utf_8_bytes :: bytes where
  "utf_8_bytes =
     [0x48, 0x65, 0x6C, 0x6C, 0x6F, 0x2C, 0x20, 0x57, 0x6F, 0x72, 0x6C, 0x64, 0x21]"

definition cp1252_text :: str where
  "cp1252_text =
     [0x57, 0x69, 0x6E, 0x64, 0x6F, 0x77, 0x73, 0x2122, 0x20, 0x74, 0x65, 0x78, 0x74]"

definition cp1252_bytes :: bytes where
  "cp1252_bytes =
     [0x57, 0x69, 0x6E, 0x64, 0x6F, 0x77, 0x73, 0x99, 0x20, 0x74, 0x65, 0x78, 0x74]"

definition shift_jis_text :: str where
  "shift_jis_text =
     [0x3053, 0x3093, 0x306B, 0x3061, 0x306F, 0x4E16, 0x754C]"

definition shift_jis_bytes :: bytes where
  "shift_jis_bytes =
     [0x82, 0xB1, 0x82, 0xF1, 0x82, 0xC9, 0x82, 0xBF, 0x82, 0xCD, 0x90, 0xA2, 0x8A,
      0x45]"

definition euc_kr_text :: str where
  "euc_kr_text =
     [0xC548, 0xB155, 0xD558, 0xC138, 0xC694]"

definition euc_kr_bytes :: bytes where
  "euc_kr_bytes =
     [0xBE, 0xC8, 0xB3, 0xE7, 0xC7, 0xCF, 0xBC, 0xBC, 0xBF, 0xE4]"

definition big5_text :: str where
  "big5_text =
     [0x7E41, 0x9AD4, 0x4E2D, 0x6587]"

definition big5_bytes :: bytes where
  "big5_bytes =
     [0xC1, 0x63, 0xC5, 0xE9, 0xA4, 0xA4, 0xA4, 0xE5]"

definition cp1251_text :: str where
  "cp1251_text =
     [0x41F, 0x440, 0x438, 0x432, 0x435, 0x442, 0x20, 0x43C, 0x438, 0x440]"

definition cp1251_bytes :: bytes where
  "cp1251_bytes =
     [0xCF, 0xF0, 0xE8, 0xE2, 0xE5, 0xF2, 0x20, 0xEC, 0xE8, 0xF0]"





definition iso_8859_1_text :: str where
  "iso_8859_1_text =
     [0x48, 0xE9, 0x6C, 0x6C, 0x6F, 0x20, 0x57, 0xF6, 0x72, 0x6C, 0x64]"

definition iso_8859_1_bytes :: bytes where
  "iso_8859_1_bytes =
     [0x48, 0xE9, 0x6C, 0x6C, 0x6F, 0x20, 0x57, 0xF6, 0x72, 0x6C, 0x64]"

definition iso_8859_2_text :: str where
  "iso_8859_2_text =
     [0x43, 0x7A, 0x65, 0x15B, 0x107, 0x20, 0x15B, 0x77, 0x69, 0x61, 0x74]"

definition iso_8859_2_bytes :: bytes where
  "iso_8859_2_bytes =
     [0x43, 0x7A, 0x65, 0xB6, 0xE6, 0x20, 0xB6, 0x77, 0x69, 0x61, 0x74]"

text \<open>The buffers of \<^verbatim>\<open>test_decode_with_fallback_binary\<close>, lines 64-84.\<close>

definition binary_bom_nulls :: bytes where
  "binary_bom_nulls =
     [0xFF, 0xFE, 0x00, 0x00, 0x01, 0x02, 0x03]"

definition binary_nulls :: bytes where
  "binary_nulls =
     [0x00, 0x00, 0x00, 0x00, 0x00, 0x00, 0x00, 0x00, 0x00, 0x00]"

definition binary_low_controls :: bytes where
  "binary_low_controls =
     [0x01, 0x02, 0x03, 0x04, 0x05]"

definition binary_jpeg :: bytes where
  "binary_jpeg =
     [0xFF, 0xD8, 0xFF, 0xE0, 0x00, 0x10]"

text \<open>
  A string that is not in the test suite: \<^verbatim>\<open>"Hello "\<close> followed by the ideograph
  \<open>U+4E16\<close>, with its UTF-8 and its Shift-JIS encoding.  It is used to compare the fast
  path with the candidate list on one and the same decoded text.
\<close>

definition mixed_text :: str where
  "mixed_text = [0x48, 0x65, 0x6C, 0x6C, 0x6F, 0x20, 0x4E16]"

definition mixed_utf_8_bytes :: bytes where
  "mixed_utf_8_bytes = [0x48, 0x65, 0x6C, 0x6C, 0x6F, 0x20, 0xE4, 0xB8, 0x96]"

definition mixed_shift_jis_bytes :: bytes where
  "mixed_shift_jis_bytes = [0x48, 0x65, 0x6C, 0x6C, 0x6F, 0x20, 0x90, 0xA2]"

section \<open>What the multi-byte codecs do on the test buffers\<close>

text \<open>
  The results of CPython's \<^verbatim>\<open>shift_jis\<close>, \<^verbatim>\<open>euc-kr\<close>, \<^verbatim>\<open>big5\<close>, \<^verbatim>\<open>gbk\<close> and \<^verbatim>\<open>gb2312\<close>
  codecs on the test buffers and on the Shift-JIS buffer above, for each multi-byte
  candidate the engine reaches on that buffer.  They are facts about the runtime, not
  about the repository: a theorem that needs them assumes that the runtime \<open>agrees\<close>
  with the table.
\<close>

type_synonym codec_facts = "(string \<times> bytes \<times> (py_error + str)) list"

definition agrees :: "codecs \<Rightarrow> codec_facts \<Rightarrow> bool" where
  "agrees rt facts = list_all (\<lambda>(enc, bs, r). rt enc bs = r) facts"

definition cjk_on_detected :: codec_facts where
  "cjk_on_detected =
    [(''shift_jis'', cp1252_bytes, Inl UnicodeDecodeError),
     (''euc-kr'', cp1252_bytes, Inl UnicodeDecodeError),
     (''big5'', cp1252_bytes, Inl UnicodeDecodeError),
     (''gbk'', cp1252_bytes, Inl UnicodeDecodeError),
     (''gb2312'', cp1252_bytes, Inl UnicodeDecodeError),
     (''shift_jis'', shift_jis_bytes, Inr shift_jis_text),
     (''shift_jis'', euc_kr_bytes, Inl UnicodeDecodeError),
     (''euc-kr'', euc_kr_bytes, Inr euc_kr_text),
     (''shift_jis'', big5_bytes, Inl UnicodeDecodeError),
     (''euc-kr'', big5_bytes, Inl UnicodeDecodeError),
     (''big5'', big5_bytes, Inr big5_text),
     (''shift_jis'', cp1251_bytes, Inl UnicodeDecodeError),
     (''euc-kr'', cp1251_bytes, Inl UnicodeDecodeError),
     (''big5'', cp1251_bytes, Inl UnicodeDecodeError),
     (''gbk'', cp1251_bytes, Inl UnicodeDecodeError),
     (''gb2312'', cp1251_bytes, Inl UnicodeDecodeError)]"


definition cjk_on_binary :: codec_facts where
  "cjk_on_binary =
    [(''shift_jis'', binary_bom_nulls, Inl UnicodeDecodeError),
     (''euc-kr'', binary_bom_nulls, Inl UnicodeDecodeError),
     (''big5'', binary_bom_nulls, Inl UnicodeDecodeError),
     (''gbk'', binary_bom_nulls, Inl UnicodeDecodeError),
     (''gb2312'', binary_bom_nulls, Inl UnicodeDecodeError),
     (''shift_jis'', binary_nulls, Inr (map unat binary_nulls)),
     (''euc-kr'', binary_nulls, Inr (map unat binary_nulls)),
     (''big5'', binary_nulls, Inr (map unat binary_nulls)),
     (''gbk'', binary_nulls, Inr (map unat binary_nulls)),
     (''gb2312'', binary_nulls, Inr (map unat binary_nulls)),
     (''shift_jis'', binary_low_controls, Inr (map unat binary_low_controls)),
     (''euc-kr'', binary_low_controls, Inr (map unat binary_low_controls)),
     (''big5'', binary_low_controls, Inr (map unat binary_low_controls)),
     (''gbk'', binary_low_controls, Inr (map unat binary_low_controls)),
     (''gb2312'', binary_low_controls, Inr (map unat binary_low_controls)),
     (''shift_jis'', binary_jpeg, Inl UnicodeDecodeError),
     (''euc-kr'', binary_jpeg, Inl UnicodeDecodeError),
     (''big5'', binary_jpeg, Inl UnicodeDecodeError),
     (''gbk'', binary_jpeg, Inl UnicodeDecodeError),
     (''gb2312'', binary_jpeg, Inl UnicodeDecodeError)]"

definition cjk_on_mixed :: codec_facts where
  "cjk_on_mixed =
    [(''shift_jis'', mixed_shift_jis_bytes, Inr mixed_text),
     (''euc-kr'', mixed_shift_jis_bytes, Inl UnicodeDecodeError),
     (''big5'', mixed_shift_jis_bytes, Inl UnicodeDecodeError),
     (''gbk'', mixed_shift_jis_bytes, Inr [0x48, 0x65, 0x6C, 0x6C, 0x6F, 0x20, 0x60BD]),
     (''gb2312'', mixed_shift_jis_bytes, Inl UnicodeDecodeError)]"

text \<open>
  The runtime that knows exactly the decodings of a table, and no other multi-byte
  decoding.
\<close>

definition codecs_of :: "codec_facts \<Rightarrow> codecs" where
  "codecs_of facts enc bs =
     (case map_of (map (\<lambda>(e, b, r). ((e, b), r)) facts) (enc, bs) of
        Some r \<Rightarrow> r
      | None \<Rightarrow> Inl LookupError)"

section \<open>A property of the multi-byte codecs\<close>

text \<open>
  The multi-byte codecs named by the engine pass every byte below \<open>0x80\<close> through
  unchanged unless it is the trail byte of a multi-byte sequence, and no trail byte is
  below \<open>0x40\<close>; every code point they produce comes from at least one byte.  So a
  successful decoding is no longer than the buffer and has at least as many control
  code points as the buffer has control bytes.  This, too, is a fact about the runtime.
\<close>

definition control_bytes :: "bytes \<Rightarrow> nat" where
  "control_bytes bs = control_chars (map unat bs)"

definition keeps_controls :: "codecs \<Rightarrow> bool" where
  "keeps_controls rt =
     (\<forall>enc bs s. rt enc bs = Inr s \<longrightarrow> length s \<le> length bs \<and> control_bytes bs \<le> control_chars s)"

section \<open>Properties of the heuristics\<close>

lemma sum_1_for_length: "sum_1_for p s = length (filter p s)"
  unfolding sum_1_for_def by (induction s) simp_all

lemma count_list_filter: "count_list s x = length (filter (\<lambda>c. c = x) s)"
  by (induction s) simp_all

text \<open>A quotient of two counts is compared with a fraction by cross-multiplication.\<close>

lemma rat_le_iff:
  fixes a b p q :: nat
  assumes "0 < q" and "0 < b"
  shows "((of_nat a :: rat) / of_nat b \<le> of_nat p / of_nat q) = (a * q \<le> p * b)"
proof -
  have "((of_nat a :: rat) / of_nat b \<le> of_nat p / of_nat q)
        = ((of_nat a :: rat) * of_nat q \<le> of_nat p * of_nat b)"
    using assms by (simp add: field_simps)
  also have "\<dots> = ((of_nat (a * q) :: rat) \<le> of_nat (p * b))" by simp
  also have "\<dots> = (a * q \<le> p * b)" by (simp only: of_nat_le_iff)
  finally show ?thesis .
qed

lemma is_likely_text_iff: "is_likely_text s = (10 * control_chars s \<le> 3 * length s)"
proof (cases "s = []")
  case True
  then show ?thesis by (simp add: is_likely_text_def control_chars_def)
next
  case False
  then have "0 < length s" by simp
  from rat_le_iff [of 10 "length s" "control_chars s" 3, OF _ this]
  show ?thesis using False
    by (simp add: is_likely_text_def sum_1_for_length control_chars_def mult.commute)
qed

text \<open>
  Claim C2.  The plausibility filter accepts the empty string; a non-empty string it
  accepts exactly when the number of its code points below 32 other than 9, 10 and 13,
  divided by its length, is at most 0.3; a ratio of exactly 0.3 passes.
\<close>

theorem is_likely_text_ratio:
  "is_likely_text []
   \<and> (s \<noteq> [] \<longrightarrow>
        is_likely_text s =
          ((of_nat (length (filter (\<lambda>c. c < 32 \<and> c \<noteq> 9 \<and> c \<noteq> 10 \<and> c \<noteq> 13) s)) :: rat)
             / of_nat (length s) \<le> 3 / 10))
   \<and> (s \<noteq> [] \<and>
        (of_nat (length (filter (\<lambda>c. c < 32 \<and> c \<noteq> 9 \<and> c \<noteq> 10 \<and> c \<noteq> 13) s)) :: rat)
          / of_nat (length s) = 3 / 10 \<longrightarrow> is_likely_text s)"
  by (simp add: is_likely_text_def sum_1_for_length)

theorem is_likely_text_ratio_witness:
  "[0, 1, 2, 65, 66, 67, 68, 69, 70, 71] \<noteq> ([] :: str)
   \<and> is_likely_text [0, 1, 2, 65, 66, 67, 68, 69, 70, 71]
   \<and> \<not> is_likely_text [0, 1, 2, 3, 66, 67, 68, 69, 70, 71]
   \<and> is_likely_text [9, 10, 13, 9, 10, 13]"
  using is_likely_text_ratio [of "[0, 1, 2, 65, 66, 67, 68, 69, 70, 71]"]
        is_likely_text_ratio [of "[0, 1, 2, 3, 66, 67, 68, 69, 70, 71]"]
        is_likely_text_ratio [of "[9, 10, 13, 9, 10, 13]"]
  by simp

text \<open>
  Claim C3.  The Western-misreads-Asian heuristic flags a string exactly when the
  encoding is cp1252 or latin-1, the string is longer than 3, more than half of its code
  points lie in \<open>0x0080\<close>-\<open>0x024F\<close>, and its spaces number less than a tenth of its length.
  For any other encoding, and for any string of length at most 3, it is false.
\<close>

theorem is_likely_misencoded_asian_text_iff:
  "is_likely_misencoded_asian_text s enc =
     ((enc = ''cp1252'' \<or> enc = ''latin-1'') \<and> length s > 3
      \<and> (of_nat (length (filter (\<lambda>c. 0x0080 \<le> c \<and> c \<le> 0x024F) s)) :: rat) / of_nat (length s)
          > 1 / 2
      \<and> (of_nat (length (filter (\<lambda>c. c = 32) s)) :: rat) < (1 / 10) * of_nat (length s))
   \<and> ((enc \<noteq> ''cp1252'' \<and> enc \<noteq> ''latin-1'' \<or> length s \<le> 3)
        \<longrightarrow> \<not> is_likely_misencoded_asian_text s enc)"
  by (auto simp add: is_likely_misencoded_asian_text_def sum_1_for_length count_list_filter Let_def)

theorem is_likely_misencoded_asian_text_iff_witness:
  "is_likely_misencoded_asian_text [0xC4, 0xE3, 0xBA, 0xC3, 0xCA, 0xC0, 0xBD, 0xE7] ''latin-1''
   \<and> \<not> is_likely_misencoded_asian_text [0xC4, 0xE3, 0xBA, 0xC3, 0xCA, 0xC0, 0xBD, 0xE7] ''cp1251''
   \<and> \<not> is_likely_misencoded_asian_text [0xC4, 0xE3, 0xBA] ''cp1252''
   \<and> \<not> is_likely_misencoded_asian_text [0xC4, 0x20, 0xBA, 0xC3, 0xCA, 0xC0, 0xBD, 0xE7] ''cp1252''"
  using is_likely_misencoded_asian_text_iff
          [of "[0xC4, 0xE3, 0xBA, 0xC3, 0xCA, 0xC0, 0xBD, 0xE7]" "''latin-1''"]
        is_likely_misencoded_asian_text_iff
          [of "[0xC4, 0xE3, 0xBA, 0xC3, 0xCA, 0xC0, 0xBD, 0xE7]" "''cp1251''"]
        is_likely_misencoded_asian_text_iff [of "[0xC4, 0xE3, 0xBA]" "''cp1252''"]
        is_likely_misencoded_asian_text_iff
          [of "[0xC4, 0x20, 0xBA, 0xC3, 0xCA, 0xC0, 0xBD, 0xE7]" "''cp1252''"]
  by simp

text \<open>
  Claim C4.  The cross-Asian heuristic is false on every string of length at most 3.  On
  a longer string it is true exactly when (pattern A) the encoding is shift_jis and more
  than 0.3 of the code points lie in \<open>0xFF61\<close>-\<open>0xFF9F\<close>, or (pattern B) the encoding is
  one of big5, gbk, gb2312, shift_jis, euc-kr, the string has a code point below 128 and
  one in \<open>0x4E00\<close>-\<open>0x9FFF\<close>, it has at least 2 ASCII letters, and fewer than half of its
  code points lie in \<open>0x4E00\<close>-\<open>0x9FFF\<close>.
\<close>

theorem is_likely_misencoded_cross_asian_iff:
  "(length s \<le> 3 \<longrightarrow> \<not> is_likely_misencoded_cross_asian s enc)
   \<and> (length s > 3 \<longrightarrow>
        is_likely_misencoded_cross_asian s enc =
          (enc = ''shift_jis''
             \<and> (of_nat (length (filter (\<lambda>c. 0xFF61 \<le> c \<and> c \<le> 0xFF9F) s)) :: rat)
                 / of_nat (length s) > 3 / 10
           \<or> (enc = ''big5'' \<or> enc = ''gbk'' \<or> enc = ''gb2312'' \<or> enc = ''shift_jis''
                \<or> enc = ''euc-kr'')
             \<and> length (filter (\<lambda>c. c < 128) s) \<ge> 1
             \<and> length (filter (\<lambda>c. 0x4E00 \<le> c \<and> c \<le> 0x9FFF) s) \<ge> 1
             \<and> length (filter (\<lambda>c. 65 \<le> c \<and> c \<le> 90 \<or> 97 \<le> c \<and> c \<le> 122) s) \<ge> 2
             \<and> (of_nat (length (filter (\<lambda>c. 0x4E00 \<le> c \<and> c \<le> 0x9FFF) s)) :: rat)
                 / of_nat (length s) < 1 / 2))"
proof -
  have alpha: "isalpha_ascii = (\<lambda>c. 65 \<le> c \<and> c \<le> 90 \<or> 97 \<le> c \<and> c \<le> 122)"
    by (auto simp add: isalpha_ascii_def fun_eq_iff)
  show ?thesis
    unfolding is_likely_misencoded_cross_asian_def sum_1_for_length Let_def alpha
    by (auto simp add: Suc_le_eq)
qed

theorem is_likely_misencoded_cross_asian_iff_witness:
  "is_likely_misencoded_cross_asian
     [0xFF96, 0xFF90, 0xFF8E, 0xFF84, 0xFF72, 0x7C17, 0xFF94] ''shift_jis''
   \<and> is_likely_misencoded_cross_asian
       [0x48, 0x5E68, 0x6C, 0x6F, 0x20, 0x57, 0x9864, 0x6C, 0x64] ''big5''
   \<and> \<not> is_likely_misencoded_cross_asian
       [0x48, 0x5E68, 0x6C, 0x6F, 0x20, 0x57, 0x9864, 0x6C, 0x64] ''cp1251''
   \<and> \<not> is_likely_misencoded_cross_asian [0xFF96, 0xFF90, 0xFF8E] ''shift_jis''
   \<and> \<not> is_likely_misencoded_cross_asian [0x3053, 0x3093, 0x306B, 0x3061, 0x306F, 0x4E16, 0x754C]
       ''shift_jis''"
  using is_likely_misencoded_cross_asian_iff
          [of "[0xFF96, 0xFF90, 0xFF8E, 0xFF84, 0xFF72, 0x7C17, 0xFF94]" "''shift_jis''"]
        is_likely_misencoded_cross_asian_iff
          [of "[0x48, 0x5E68, 0x6C, 0x6F, 0x20, 0x57, 0x9864, 0x6C, 0x64]" "''big5''"]
        is_likely_misencoded_cross_asian_iff
          [of "[0x48, 0x5E68, 0x6C, 0x6F, 0x20, 0x57, 0x9864, 0x6C, 0x64]" "''cp1251''"]
        is_likely_misencoded_cross_asian_iff [of "[0xFF96, 0xFF90, 0xFF8E]" "''shift_jis''"]
        is_likely_misencoded_cross_asian_iff
          [of "[0x3053, 0x3093, 0x306B, 0x3061, 0x306F, 0x4E16, 0x754C]" "''shift_jis''"]
  by simp

section \<open>Properties of the engine\<close>

text \<open>One round of the loop: the candidate is accepted, or the loop goes on.\<close>

lemma decode_loop_Cons:
  "decode_loop rt bs (enc # rest) =
     (if \<exists>s. accepted rt bs enc s
      then (case bytes_decode rt bs enc of Inr s \<Rightarrow> Some s | Inl e \<Rightarrow> None)
      else decode_loop rt bs rest)"
  by (auto simp add: accepted_def split: sum.splits py_error.splits)

lemma decode_loop_None_iff:
  "decode_loop rt bs encs = None \<longleftrightarrow> (\<forall>enc \<in> set encs. \<forall>t. \<not> accepted rt bs enc t)"
proof (induction encs)
  case Nil
  show ?case by simp
next
  case (Cons enc rest)
  show ?case
  proof (cases "\<exists>s. accepted rt bs enc s")
    case True
    then obtain s where "accepted rt bs enc s" ..
    then show ?thesis by (auto simp add: accepted_def)
  next
    case False
    then show ?thesis using Cons.IH by (simp add: decode_loop_Cons del: decode_loop.simps)
  qed
qed

lemma decode_loop_Some_iff:
  "decode_loop rt bs encs = Some s \<longleftrightarrow>
     (\<exists>i < length encs. accepted rt bs (encs ! i) s
        \<and> (\<forall>j < i. \<forall>t. \<not> accepted rt bs (encs ! j) t))"
proof (induction encs)
  case Nil
  show ?case by simp
next
  case (Cons enc rest)
  show ?case
  proof (cases "\<exists>t. accepted rt bs enc t")
    case True
    then obtain t where t: "accepted rt bs enc t" ..
    then have loop: "decode_loop rt bs (enc # rest) = Some t"
      by (simp add: accepted_def)
    show ?thesis
    proof
      assume "decode_loop rt bs (enc # rest) = Some s"
      with loop have "s = t" by simp
      with t have "accepted rt bs ((enc # rest) ! 0) s \<and> (\<forall>j < 0. \<forall>t. \<not> accepted rt bs ((enc # rest) ! j) t)"
        by simp
      then show "\<exists>i < length (enc # rest). accepted rt bs ((enc # rest) ! i) s
          \<and> (\<forall>j < i. \<forall>t. \<not> accepted rt bs ((enc # rest) ! j) t)"
        by (intro exI[of _ 0]) simp
    next
      assume "\<exists>i < length (enc # rest). accepted rt bs ((enc # rest) ! i) s
          \<and> (\<forall>j < i. \<forall>t. \<not> accepted rt bs ((enc # rest) ! j) t)"
      then obtain i where i: "i < length (enc # rest)" "accepted rt bs ((enc # rest) ! i) s"
        "\<forall>j < i. \<forall>t. \<not> accepted rt bs ((enc # rest) ! j) t" by blast
      have "i = 0"
      proof (rule ccontr)
        assume "i \<noteq> 0"
        then have "0 < i" by simp
        with i(3) have "\<not> accepted rt bs ((enc # rest) ! 0) t" by blast
        with t show False by simp
      qed
      with i(2) have "accepted rt bs enc s" by simp
      with t have "s = t" by (simp add: accepted_def)
      with loop show "decode_loop rt bs (enc # rest) = Some s" by simp
    qed
  next
    case False
    then have loop: "decode_loop rt bs (enc # rest) = decode_loop rt bs rest"
      by (simp add: decode_loop_Cons del: decode_loop.simps)
    show ?thesis
    proof
      assume "decode_loop rt bs (enc # rest) = Some s"
      with loop Cons.IH obtain i where i: "i < length rest" "accepted rt bs (rest ! i) s"
        "\<forall>j < i. \<forall>t. \<not> accepted rt bs (rest ! j) t" by auto
      have "\<forall>j < Suc i. \<forall>t. \<not> accepted rt bs ((enc # rest) ! j) t"
      proof (intro allI impI)
        fix j t assume "j < Suc i"
        then show "\<not> accepted rt bs ((enc # rest) ! j) t"
          using False i(3) by (cases j) auto
      qed
      with i(1,2) show "\<exists>i < length (enc # rest). accepted rt bs ((enc # rest) ! i) s
          \<and> (\<forall>j < i. \<forall>t. \<not> accepted rt bs ((enc # rest) ! j) t)"
        by (intro exI[of _ "Suc i"]) simp
    next
      assume "\<exists>i < length (enc # rest). accepted rt bs ((enc # rest) ! i) s
          \<and> (\<forall>j < i. \<forall>t. \<not> accepted rt bs ((enc # rest) ! j) t)"
      then obtain i where i: "i < length (enc # rest)" "accepted rt bs ((enc # rest) ! i) s"
        "\<forall>j < i. \<forall>t. \<not> accepted rt bs ((enc # rest) ! j) t" by blast
      from i(2) False obtain k where k: "i = Suc k" by (cases i) auto
      with i have "k < length rest" "accepted rt bs (rest ! k) s" by simp_all
      moreover have "\<forall>j < k. \<forall>t. \<not> accepted rt bs (rest ! j) t"
      proof (intro allI impI)
        fix j t assume "j < k"
        then have "Suc j < i" using k by simp
        with i(3) have "\<not> accepted rt bs ((enc # rest) ! Suc j) t" by blast
        then show "\<not> accepted rt bs (rest ! j) t" by simp
      qed
      ultimately have "decode_loop rt bs rest = Some s" using Cons.IH by blast
      with loop show "decode_loop rt bs (enc # rest) = Some s" by simp
    qed
  qed
qed

lemma utf_8_never_lookup: "bytes_decode rt bs ''utf-8'' \<noteq> Inl LookupError"
  by (simp add: bytes_decode_def utf_8_decode_def split: option.splits)

lemma decode_with_fallback_cases:
  "decode_with_fallback rt bs =
     (if \<exists>s. accepted_fast rt bs s
      then (case bytes_decode rt bs ''utf-8'' of Inr s \<Rightarrow> Inr (Some s) | Inl e \<Rightarrow> Inl e)
      else Inr (decode_loop rt bs common_encodings))"
  using utf_8_never_lookup[of rt bs]
  by (auto simp add: decode_with_fallback_def accepted_fast_def split: sum.splits py_error.splits)


text \<open>The engine on two buffers, in a runtime without the multi-byte codecs.\<close>

lemmas heuristics_defs =
  is_likely_text_def is_likely_misencoded_asian_text_def is_likely_misencoded_cross_asian_def
  sum_1_for_def isalpha_ascii_def Let_def

lemma utf_8_cp1251: "utf_8_decode cp1251_bytes = Inl UnicodeDecodeError"
  by (simp add: utf_8_decode_def cp1251_bytes_def continuation_def)

lemma cp1251_cp1251: "charmap_decode cp1251_table cp1251_bytes = Inr cp1251_text"
  by (simp add: charmap_decode_def charmap_char_def cp1251_table_def cp1251_bytes_def
      cp1251_text_def)

lemma cp1251_text_checks:
  "is_likely_text cp1251_text"
  "\<not> is_likely_misencoded_asian_text cp1251_text enc"
  "\<not> is_likely_misencoded_cross_asian cp1251_text enc"
  by (simp_all add: cp1251_text_def heuristics_defs)

lemma no_cjk_cp1251:
  "decode_with_fallback no_cjk_codecs cp1251_bytes = Inr (Some cp1251_text)"
  by (simp add: decode_with_fallback_def bytes_decode_def utf_8_cp1251 cp1251_cp1251
      common_encodings_def no_cjk_codecs_def cp1251_text_checks)

lemma no_cjk_nulls: "decode_with_fallback no_cjk_codecs binary_nulls = Inr None"
  by (simp add: decode_with_fallback_def bytes_decode_def utf_8_decode_def common_encodings_def
      no_cjk_codecs_def binary_nulls_def latin_1_decode_def charmap_decode_def charmap_char_def
      heuristics_defs)

text \<open>
  Claim C1.  The candidates are UTF-8 and then the fixed list shift_jis, euc-kr, big5,
  gbk, gb2312, cp1251, iso-8859-2, cp1252, latin-1, in this order.  The engine returns a
  string exactly when that string is the decoded text of the first accepted candidate
  (every earlier candidate being accepted with no text at all), it returns \<^verbatim>\<open>None\<close>
  exactly when no candidate is accepted, and it returns nothing else.
\<close>

theorem decode_with_fallback_first_accepted:
  "''utf-8'' # common_encodings =
     [''utf-8'', ''shift_jis'', ''euc-kr'', ''big5'', ''gbk'', ''gb2312'', ''cp1251'',
      ''iso-8859-2'', ''cp1252'', ''latin-1'']
   \<and> (decode_with_fallback rt bs = Inr (Some s) \<longleftrightarrow>
        accepted_fast rt bs s
        \<or> (\<forall>t. \<not> accepted_fast rt bs t)
          \<and> (\<exists>i < length common_encodings.
                accepted rt bs (common_encodings ! i) s
                \<and> (\<forall>j < i. \<forall>t. \<not> accepted rt bs (common_encodings ! j) t)))
   \<and> (decode_with_fallback rt bs = Inr None \<longleftrightarrow>
        (\<forall>t. \<not> accepted_fast rt bs t)
        \<and> (\<forall>enc \<in> set common_encodings. \<forall>t. \<not> accepted rt bs enc t))
   \<and> (\<exists>r. decode_with_fallback rt bs = Inr r)"
proof (intro conjI)
  show "''utf-8'' # common_encodings =
     [''utf-8'', ''shift_jis'', ''euc-kr'', ''big5'', ''gbk'', ''gb2312'', ''cp1251'',
      ''iso-8859-2'', ''cp1252'', ''latin-1'']"
    by (simp add: common_encodings_def)
next
  show "decode_with_fallback rt bs = Inr (Some s) \<longleftrightarrow>
        accepted_fast rt bs s
        \<or> (\<forall>t. \<not> accepted_fast rt bs t)
          \<and> (\<exists>i < length common_encodings.
                accepted rt bs (common_encodings ! i) s
                \<and> (\<forall>j < i. \<forall>t. \<not> accepted rt bs (common_encodings ! j) t))"
  proof (cases "\<exists>t. accepted_fast rt bs t")
    case True
    then obtain t where t: "accepted_fast rt bs t" ..
    then have "decode_with_fallback rt bs = Inr (Some t)"
      by (simp add: decode_with_fallback_def accepted_fast_def)
    moreover have "accepted_fast rt bs s \<longleftrightarrow> s = t"
      using t by (auto simp add: accepted_fast_def)
    ultimately show ?thesis using t by auto
  next
    case False
    then show ?thesis
      by (simp add: decode_with_fallback_cases decode_loop_Some_iff)
  qed
next
  show "decode_with_fallback rt bs = Inr None \<longleftrightarrow>
        (\<forall>t. \<not> accepted_fast rt bs t)
        \<and> (\<forall>enc \<in> set common_encodings. \<forall>t. \<not> accepted rt bs enc t)"
  proof (cases "\<exists>t. accepted_fast rt bs t")
    case True
    then obtain t where t: "accepted_fast rt bs t" ..
    then have "decode_with_fallback rt bs = Inr (Some t)"
      by (simp add: decode_with_fallback_def accepted_fast_def)
    then show ?thesis using t by auto
  next
    case False
    then show ?thesis
      by (simp add: decode_with_fallback_cases decode_loop_None_iff)
  qed
next
  show "\<exists>r. decode_with_fallback rt bs = Inr r"
    using utf_8_never_lookup [of rt bs]
    by (auto simp add: decode_with_fallback_def split: sum.splits py_error.splits)
qed

theorem decode_with_fallback_first_accepted_witness:
  "decode_with_fallback no_cjk_codecs cp1251_bytes = Inr (Some cp1251_text)
   \<and> \<not> accepted_fast no_cjk_codecs cp1251_bytes cp1251_text
   \<and> (\<exists>i < length common_encodings.
         accepted no_cjk_codecs cp1251_bytes (common_encodings ! i) cp1251_text
         \<and> (\<forall>j < i. \<forall>t. \<not> accepted no_cjk_codecs cp1251_bytes (common_encodings ! j) t))
   \<and> decode_with_fallback no_cjk_codecs binary_nulls = Inr None
   \<and> (\<forall>t. \<not> accepted no_cjk_codecs binary_nulls ''latin-1'' t)"
proof -
  have fast: "\<not> accepted_fast no_cjk_codecs cp1251_bytes cp1251_text"
    by (simp add: accepted_fast_def bytes_decode_def utf_8_cp1251)
  have nulls: "\<forall>t. \<not> accepted no_cjk_codecs binary_nulls ''latin-1'' t"
    using decode_with_fallback_first_accepted [of no_cjk_codecs binary_nulls] no_cjk_nulls
    by (simp add: common_encodings_def)
  from decode_with_fallback_first_accepted [of no_cjk_codecs cp1251_bytes cp1251_text]
    no_cjk_cp1251 fast nulls no_cjk_nulls
  show ?thesis by blast
qed

lemma bytes_decode_utf_8: "bytes_decode rt bs ''utf-8'' = utf_8_decode bs"
  by (simp add: bytes_decode_def)

lemma bytes_decode_latin_1: "bytes_decode rt bs ''latin-1'' = Inr (map unat bs)"
  by (simp add: bytes_decode_def latin_1_decode_def)

lemma decode_with_fallback_returns: "\<exists>r. decode_with_fallback rt bs = Inr r"
  using utf_8_never_lookup [of rt bs]
  by (auto simp add: decode_with_fallback_def split: sum.splits py_error.splits)

text \<open>
  One decoded text on both paths: as the UTF-8 decoding of a buffer, and as the
  shift_jis decoding of another, where the cross-Asian heuristic flags it.
\<close>

lemma mixed_text_encoded:
  "is_str mixed_text" "utf_8_encode mixed_text = Some mixed_utf_8_bytes"
  "utf_8_decode mixed_utf_8_bytes = Inr mixed_text"
  "utf_8_decode mixed_shift_jis_bytes = Inl UnicodeDecodeError"
  by (simp_all add: is_str_def mixed_text_def mixed_utf_8_bytes_def mixed_shift_jis_bytes_def
      utf_8_encode_def utf_8_encode_char_def utf_8_decode_def continuation_def)

lemma mixed_text_checks:
  "is_likely_text mixed_text"
  "is_likely_misencoded_cross_asian mixed_text ''shift_jis''"
  by (simp_all add: mixed_text_def heuristics_defs)

lemma mixed_codecs:
  "codecs_of cjk_on_mixed ''shift_jis'' mixed_shift_jis_bytes = Inr mixed_text"
  "codecs_of cjk_on_mixed ''euc-kr'' mixed_shift_jis_bytes = Inl UnicodeDecodeError"
  "codecs_of cjk_on_mixed ''big5'' mixed_shift_jis_bytes = Inl UnicodeDecodeError"
  "codecs_of cjk_on_mixed ''gbk'' mixed_shift_jis_bytes
     = Inr [0x48, 0x65, 0x6C, 0x6C, 0x6F, 0x20, 0x60BD]"
  "codecs_of cjk_on_mixed ''gb2312'' mixed_shift_jis_bytes = Inl UnicodeDecodeError"
  by (simp_all add: codecs_of_def cjk_on_mixed_def)

lemma mixed_shift_jis_result:
  "decode_with_fallback (codecs_of cjk_on_mixed) mixed_shift_jis_bytes
     = Inr (Some [0x48, 0x65, 0x6C, 0x6C, 0x6F, 0x20, 0x452, 0x45E])"
proof -
  have g: "is_likely_text [0x48, 0x65, 0x6C, 0x6C, 0x6F, 0x20, 0x60BD]"
    "\<not> is_likely_misencoded_asian_text [0x48, 0x65, 0x6C, 0x6C, 0x6F, 0x20, 0x60BD] ''gbk''"
    "is_likely_misencoded_cross_asian [0x48, 0x65, 0x6C, 0x6C, 0x6F, 0x20, 0x60BD] ''gbk''"
    by (simp_all add: heuristics_defs)
  have d: "charmap_decode cp1251_table mixed_shift_jis_bytes
           = Inr [0x48, 0x65, 0x6C, 0x6C, 0x6F, 0x20, 0x452, 0x45E]"
    by (simp add: charmap_decode_def charmap_char_def cp1251_table_def mixed_shift_jis_bytes_def)
  have h: "is_likely_text [0x48, 0x65, 0x6C, 0x6C, 0x6F, 0x20, 0x452, 0x45E]"
    "\<not> is_likely_misencoded_asian_text [0x48, 0x65, 0x6C, 0x6C, 0x6F, 0x20, 0x452, 0x45E] ''cp1251''"
    "\<not> is_likely_misencoded_cross_asian [0x48, 0x65, 0x6C, 0x6C, 0x6F, 0x20, 0x452, 0x45E] ''cp1251''"
    by (simp_all add: heuristics_defs)
  show ?thesis
    by (simp add: decode_with_fallback_def bytes_decode_def common_encodings_def
        mixed_text_encoded mixed_codecs mixed_text_checks g d h)
qed

text \<open>
  Claim C5.  When the UTF-8 decoding of the buffer succeeds and passes the plausibility
  filter, the engine returns it at once: no script-mismatch heuristic takes part, while
  a candidate of the list whose text a heuristic flags is skipped.  The empty buffer
  gives the empty string.  When the UTF-8 decoding fails or is rejected by the filter,
  the search goes on with the candidate list, in which UTF-8 does not occur: the engine
  returns the text of the first accepted candidate of the list, and \<^verbatim>\<open>None\<close> exactly
  when the list has no accepted candidate.
\<close>

theorem fast_path_contract:
  "(utf_8_decode bs = Inr s \<and> is_likely_text s \<longrightarrow> decode_with_fallback rt bs = Inr (Some s))
   \<and> decode_with_fallback rt [] = Inr (Some [])
   \<and> (bytes_decode rt bs' enc = Inr s
        \<and> (is_likely_misencoded_asian_text s enc \<or> is_likely_misencoded_cross_asian s enc)
      \<longrightarrow> decode_loop rt bs' (enc # rest) = decode_loop rt bs' rest)
   \<and> (utf_8_decode bs = Inl UnicodeDecodeError
        \<or> (\<exists>s. utf_8_decode bs = Inr s \<and> \<not> is_likely_text s)
      \<longrightarrow> decode_with_fallback rt bs = Inr (decode_loop rt bs common_encodings)
          \<and> (decode_with_fallback rt bs = Inr (Some t) \<longleftrightarrow>
               (\<exists>i < length common_encodings.
                  accepted rt bs (common_encodings ! i) t
                  \<and> (\<forall>j < i. \<forall>u. \<not> accepted rt bs (common_encodings ! j) u)))
          \<and> (decode_with_fallback rt bs = Inr None \<longleftrightarrow>
               (\<forall>enc \<in> set common_encodings. \<forall>u. \<not> accepted rt bs enc u)))
   \<and> ''utf-8'' \<notin> set common_encodings
   \<and> common_encodings =
       [''shift_jis'', ''euc-kr'', ''big5'', ''gbk'', ''gb2312'', ''cp1251'', ''iso-8859-2'',
        ''cp1252'', ''latin-1'']"
proof -
  have fast: "decode_with_fallback rt bs = Inr (Some s)"
    if "utf_8_decode bs = Inr s \<and> is_likely_text s"
    using that by (simp add: decode_with_fallback_def bytes_decode_utf_8)
  have empty: "decode_with_fallback rt [] = Inr (Some [])"
    by (simp add: decode_with_fallback_def bytes_decode_utf_8 utf_8_decode_def is_likely_text_def)
  have skip: "decode_loop rt bs' (enc # rest) = decode_loop rt bs' rest"
    if "bytes_decode rt bs' enc = Inr s
        \<and> (is_likely_misencoded_asian_text s enc \<or> is_likely_misencoded_cross_asian s enc)"
    using that by auto
  have search: "decode_with_fallback rt bs = Inr (decode_loop rt bs common_encodings)
          \<and> (decode_with_fallback rt bs = Inr (Some t) \<longleftrightarrow>
               (\<exists>i < length common_encodings.
                  accepted rt bs (common_encodings ! i) t
                  \<and> (\<forall>j < i. \<forall>u. \<not> accepted rt bs (common_encodings ! j) u)))
          \<and> (decode_with_fallback rt bs = Inr None \<longleftrightarrow>
               (\<forall>enc \<in> set common_encodings. \<forall>u. \<not> accepted rt bs enc u))"
    if "utf_8_decode bs = Inl UnicodeDecodeError
        \<or> (\<exists>s. utf_8_decode bs = Inr s \<and> \<not> is_likely_text s)"
  proof -
    from that have loop: "decode_with_fallback rt bs = Inr (decode_loop rt bs common_encodings)"
      by (auto simp add: decode_with_fallback_def bytes_decode_utf_8)
    show ?thesis
      unfolding loop by (simp add: decode_loop_Some_iff decode_loop_None_iff)
  qed
  have list: "''utf-8'' \<notin> set common_encodings
   \<and> common_encodings =
       [''shift_jis'', ''euc-kr'', ''big5'', ''gbk'', ''gb2312'', ''cp1251'', ''iso-8859-2'',
        ''cp1252'', ''latin-1'']"
    by (simp add: common_encodings_def)
  from fast empty skip search list show ?thesis by blast
qed

theorem fast_path_contract_witness:
  "utf_8_decode mixed_utf_8_bytes = Inr mixed_text
   \<and> is_likely_text mixed_text
   \<and> decode_with_fallback (codecs_of cjk_on_mixed) mixed_utf_8_bytes = Inr (Some mixed_text)
   \<and> bytes_decode (codecs_of cjk_on_mixed) mixed_shift_jis_bytes ''shift_jis'' = Inr mixed_text
   \<and> is_likely_misencoded_cross_asian mixed_text ''shift_jis''
   \<and> decode_loop (codecs_of cjk_on_mixed) mixed_shift_jis_bytes (''shift_jis'' # tl common_encodings)
       = decode_loop (codecs_of cjk_on_mixed) mixed_shift_jis_bytes (tl common_encodings)
   \<and> utf_8_decode mixed_shift_jis_bytes = Inl UnicodeDecodeError
   \<and> decode_with_fallback (codecs_of cjk_on_mixed) mixed_shift_jis_bytes
       = Inr (Some [0x48, 0x65, 0x6C, 0x6C, 0x6F, 0x20, 0x452, 0x45E])
   \<and> (\<exists>i < length common_encodings.
         accepted (codecs_of cjk_on_mixed) mixed_shift_jis_bytes (common_encodings ! i)
           [0x48, 0x65, 0x6C, 0x6C, 0x6F, 0x20, 0x452, 0x45E]
         \<and> (\<forall>j < i. \<forall>u. \<not> accepted (codecs_of cjk_on_mixed) mixed_shift_jis_bytes
                                 (common_encodings ! j) u))
   \<and> utf_8_decode binary_nulls = Inr (map unat binary_nulls)
   \<and> \<not> is_likely_text (map unat binary_nulls)
   \<and> decode_with_fallback no_cjk_codecs binary_nulls = Inr None
   \<and> (\<forall>u. \<not> accepted no_cjk_codecs binary_nulls ''iso-8859-2'' u)"
proof -
  have a: "bytes_decode (codecs_of cjk_on_mixed) mixed_shift_jis_bytes ''shift_jis'' = Inr mixed_text"
    by (simp add: bytes_decode_def mixed_codecs)
  have n: "utf_8_decode binary_nulls = Inr (map unat binary_nulls)"
    by (simp add: utf_8_decode_def binary_nulls_def)
  have r: "\<not> is_likely_text (map unat binary_nulls)"
    by (simp add: heuristics_defs binary_nulls_def)
  have m: "''iso-8859-2'' \<in> set common_encodings"
    by (simp add: common_encodings_def)
  from fast_path_contract [of mixed_utf_8_bytes mixed_text "codecs_of cjk_on_mixed"
      mixed_shift_jis_bytes "''shift_jis''" "tl common_encodings"]
    fast_path_contract [of mixed_shift_jis_bytes mixed_text "codecs_of cjk_on_mixed"
      mixed_shift_jis_bytes "''shift_jis''" "tl common_encodings"
      "[0x48, 0x65, 0x6C, 0x6C, 0x6F, 0x20, 0x452, 0x45E]"]
    fast_path_contract [of binary_nulls mixed_text no_cjk_codecs
      mixed_shift_jis_bytes "''shift_jis''" "tl common_encodings"]
    mixed_text_encoded mixed_text_checks mixed_shift_jis_result a n r m no_cjk_nulls
  show ?thesis by blast
qed



text \<open>
  Claim C10.  The latin-1 decoding of a buffer always succeeds and has one code point
  per byte, and the cross-Asian heuristic is false for latin-1.  So the engine returns
  \<^verbatim>\<open>None\<close> only on a non-empty buffer whose latin-1 decoding is rejected by the
  plausibility filter or by the Western-misreads-Asian heuristic; a buffer whose latin-1
  decoding passes both yields a string.
\<close>

theorem none_only_if_latin_1_rejected:
  "(\<exists>s. bytes_decode rt bs ''latin-1'' = Inr s \<and> latin_1_decode bs = Inr s
        \<and> length s = length bs \<and> (\<forall>i < length bs. s ! i = unat (bs ! i)))
   \<and> \<not> is_likely_misencoded_cross_asian t ''latin-1''
   \<and> (decode_with_fallback rt bs = Inr None
        \<longrightarrow> bs \<noteq> []
            \<and> (\<not> is_likely_text (map unat bs)
                \<or> is_likely_misencoded_asian_text (map unat bs) ''latin-1''))
   \<and> (is_likely_text (map unat bs) \<and> \<not> is_likely_misencoded_asian_text (map unat bs) ''latin-1''
        \<longrightarrow> (\<exists>s. decode_with_fallback rt bs = Inr (Some s)))"
proof -
  have cross: "\<not> is_likely_misencoded_cross_asian t ''latin-1''" for t
    by (simp add: is_likely_misencoded_cross_asian_def)
  have acc: "accepted rt bs ''latin-1'' (map unat bs)"
    if "is_likely_text (map unat bs)"
      and "\<not> is_likely_misencoded_asian_text (map unat bs) ''latin-1''"
    using that cross by (simp add: accepted_def bytes_decode_latin_1)
  have latin: "''latin-1'' \<in> set common_encodings"
    by (simp add: common_encodings_def)
  have none: "\<not> is_likely_text (map unat bs)
                \<or> is_likely_misencoded_asian_text (map unat bs) ''latin-1''"
    if "decode_with_fallback rt bs = Inr None"
  proof (rule ccontr)
    assume "\<not> (\<not> is_likely_text (map unat bs)
                \<or> is_likely_misencoded_asian_text (map unat bs) ''latin-1'')"
    then have "accepted rt bs ''latin-1'' (map unat bs)" using acc by blast
    with latin have "decode_loop rt bs common_encodings \<noteq> None"
      using decode_loop_None_iff [of rt bs common_encodings] by blast
    with that show False
      by (simp add: decode_with_fallback_cases split: if_splits sum.splits)
  qed
  have nonempty: "bs \<noteq> []" if "decode_with_fallback rt bs = Inr None"
  proof
    assume "bs = []"
    then have "decode_with_fallback rt bs = Inr (Some [])"
      by (simp add: decode_with_fallback_def bytes_decode_utf_8 utf_8_decode_def
          is_likely_text_def)
    with that show False by simp
  qed
  have some: "\<exists>s. decode_with_fallback rt bs = Inr (Some s)"
    if "is_likely_text (map unat bs) \<and> \<not> is_likely_misencoded_asian_text (map unat bs) ''latin-1''"
  proof -
    obtain r where r: "decode_with_fallback rt bs = Inr r"
      using decode_with_fallback_returns by blast
    have "r \<noteq> None" using none that r by auto
    with r show ?thesis by auto
  qed
  show ?thesis
    using cross none nonempty some
    by (simp add: bytes_decode_latin_1 latin_1_decode_def)
qed

theorem none_only_if_latin_1_rejected_witness:
  "decode_with_fallback no_cjk_codecs binary_nulls = Inr None
   \<and> binary_nulls \<noteq> []
   \<and> \<not> is_likely_text (map unat binary_nulls)
   \<and> is_likely_text (map unat cp1251_bytes)
   \<and> \<not> is_likely_misencoded_asian_text (map unat cp1251_bytes) ''latin-1''
   \<and> (\<exists>s. decode_with_fallback no_cjk_codecs cp1251_bytes = Inr (Some s))"
proof -
  have a: "\<not> is_likely_text (map unat binary_nulls)"
    by (simp add: heuristics_defs binary_nulls_def)
  have b: "is_likely_text (map unat cp1251_bytes)"
    by (simp add: heuristics_defs cp1251_bytes_def)
  have c: "\<not> is_likely_misencoded_asian_text (map unat cp1251_bytes) ''latin-1''"
    by (simp add: heuristics_defs cp1251_bytes_def)
  from none_only_if_latin_1_rejected [of no_cjk_codecs binary_nulls]
    none_only_if_latin_1_rejected [of no_cjk_codecs cp1251_bytes]
    no_cjk_nulls a b c
  show ?thesis by blast
qed

section \<open>Binary buffers\<close>

lemma control_chars_Cons:
  "control_chars (c # s) =
     (if c < 32 \<and> c \<noteq> 9 \<and> c \<noteq> 10 \<and> c \<noteq> 13 then Suc (control_chars s) else control_chars s)"
  by (simp add: control_chars_def)

text \<open>
  The modelled codecs produce at most one code point per byte and keep every control
  byte as the control code point of the same value.
\<close>

lemma utf_8_scan_keeps:
  "utf_8_scan xs = Some s \<Longrightarrow> length s \<le> length xs \<and> control_chars xs \<le> control_chars s"
proof (induction xs arbitrary: s rule: utf_8_scan.induct)
  case 1
  then show ?case by simp
next
  case (2 b0 bs)
  show ?case
  proof (cases "b0 < 0x80")
    case True
    with "2.prems" obtain s' where s': "utf_8_scan bs = Some s'" "s = b0 # s'"
      by auto
    with "2.IH"(1) [OF True s'(1)] show ?thesis
      by (simp add: control_chars_Cons)
  next
    case hi: False
    show ?thesis
    proof (cases "0xC2 \<le> b0 \<and> b0 \<le> 0xDF")
      case True
      with hi "2.prems" obtain b1 bs' s' where *: "bs = b1 # bs'" "continuation b1"
        "utf_8_scan bs' = Some s'" "s = ((b0 - 0xC0) * 0x40 + (b1 - 0x80)) # s'"
        by (auto split: list.splits if_splits)
      from "2.IH"(2) [OF hi True *(1) *(2) *(3)]
      have "length s' \<le> length bs' \<and> control_chars bs' \<le> control_chars s'" .
      with * True hi show ?thesis
        by (simp add: control_chars_Cons continuation_def)
    next
      case no2: False
      show ?thesis
      proof (cases "0xE0 \<le> b0 \<and> b0 \<le> 0xEF")
        case True
        with hi no2 "2.prems" obtain b1 b2 bs' s' where *: "bs = b1 # b2 # bs'"
          "(if b0 = 0xE0 then 0xA0 \<le> b1 \<and> b1 \<le> 0xBF
                 else if b0 = 0xED then 0x80 \<le> b1 \<and> b1 \<le> 0x9F
                 else continuation b1) \<and> continuation b2"
          "utf_8_scan bs' = Some s'"
          "s = ((b0 - 0xE0) * 0x1000 + (b1 - 0x80) * 0x40 + (b2 - 0x80)) # s'"
          by (auto split: list.splits if_splits)
        from "2.IH"(3) [OF hi no2 True *(1) _ *(2) *(3)]
        have ih: "length s' \<le> length bs' \<and> control_chars bs' \<le> control_chars s'" by simp
        have "0x80 \<le> b1" "0x80 \<le> b2"
          using *(2) by (auto simp add: continuation_def split: if_splits)
        with ih * True show ?thesis
          by (auto simp add: control_chars_Cons)
      next
        case no3: False
        with hi no2 "2.prems" have four: "0xF0 \<le> b0 \<and> b0 \<le> 0xF4"
          by (auto split: if_splits)
        with hi no2 no3 "2.prems" obtain b1 b2 b3 bs' s' where *: "bs = b1 # b2 # b3 # bs'"
          "(if b0 = 0xF0 then 0x90 \<le> b1 \<and> b1 \<le> 0xBF
                 else if b0 = 0xF4 then 0x80 \<le> b1 \<and> b1 \<le> 0x8F
                 else continuation b1) \<and> continuation b2 \<and> continuation b3"
          "utf_8_scan bs' = Some s'"
          "s = ((b0 - 0xF0) * 0x40000 + (b1 - 0x80) * 0x1000
                          + (b2 - 0x80) * 0x40 + (b3 - 0x80)) # s'"
          by (auto split: list.splits if_splits)
        from "2.IH"(4) [OF hi no2 no3 four *(1) _ _ *(2) *(3)]
        have ih: "length s' \<le> length bs' \<and> control_chars bs' \<le> control_chars s'" by simp
        have "0x80 \<le> b1" "0x80 \<le> b2" "0x80 \<le> b3"
          using *(2) by (auto simp add: continuation_def split: if_splits)
        with ih * four show ?thesis
          by (auto simp add: control_chars_Cons)
      qed
    qed
  qed
qed


lemma those_charmap_keeps:
  "those (map (\<lambda>b. charmap_char upper (unat b)) bs) = Some s
   \<Longrightarrow> length s = length bs \<and> control_chars (map unat bs) \<le> control_chars s"
proof (induction bs arbitrary: s)
  case Nil
  then show ?case by simp
next
  case (Cons b bs)
  from Cons.prems obtain c s' where *: "charmap_char upper (unat b) = Some c"
    "those (map (\<lambda>b. charmap_char upper (unat b)) bs) = Some s'" "s = c # s'"
    by (auto split: option.splits)
  from Cons.IH [OF *(2)]
  have ih: "length s' = length bs \<and> control_chars (map unat bs) \<le> control_chars s'" .
  have "unat b < 32 \<Longrightarrow> c = unat b"
    using *(1) by (simp add: charmap_char_def split: if_splits)
  with ih *(3) show ?case
    by (auto simp add: control_chars_Cons)
qed

lemma charmap_decode_keeps:
  "charmap_decode upper bs = Inr s \<Longrightarrow> length s \<le> length bs \<and> control_bytes bs \<le> control_chars s"
  using those_charmap_keeps [of upper bs s]
  by (simp add: charmap_decode_def control_bytes_def split: option.splits)

lemma utf_8_decode_keeps:
  "utf_8_decode bs = Inr s \<Longrightarrow> length s \<le> length bs \<and> control_bytes bs \<le> control_chars s"
  using utf_8_scan_keeps [of "map unat bs" s]
  by (simp add: utf_8_decode_def control_bytes_def split: option.splits)

text \<open>Every candidate keeps the control bytes, when the multi-byte codecs do.\<close>

lemma bytes_decode_keeps:
  assumes "keeps_controls rt" and "bytes_decode rt bs enc = Inr s"
  shows "length s \<le> length bs \<and> control_bytes bs \<le> control_chars s"
proof -
  consider "enc = ''utf-8''" | "enc = ''latin-1''" | "enc = ''cp1251''" | "enc = ''iso-8859-2''"
    | "enc = ''cp1252''"
    | "enc \<noteq> ''utf-8''" "enc \<noteq> ''latin-1''" "enc \<noteq> ''cp1251''" "enc \<noteq> ''iso-8859-2''"
      "enc \<noteq> ''cp1252''"
    by blast
  then show ?thesis
  proof cases
    case 1
    with assms(2) show ?thesis by (simp add: bytes_decode_def utf_8_decode_keeps)
  next
    case 2
    with assms(2) show ?thesis
      by (auto simp add: bytes_decode_def latin_1_decode_def control_bytes_def)
  next
    case 3
    with assms(2) show ?thesis by (simp add: bytes_decode_def charmap_decode_keeps)
  next
    case 4
    with assms(2) show ?thesis by (simp add: bytes_decode_def charmap_decode_keeps)
  next
    case 5
    with assms(2) show ?thesis by (simp add: bytes_decode_def charmap_decode_keeps)
  next
    case 6
    with assms(2) have "rt enc bs = Inr s" by (simp add: bytes_decode_def)
    with assms(1) show ?thesis by (simp add: keeps_controls_def)
  qed
qed

text \<open>A buffer with more than 30% control bytes is rejected under every candidate.\<close>

lemma binary_rejected:
  assumes "keeps_controls rt" and "3 * length bs < 10 * control_bytes bs"
  shows "decode_with_fallback rt bs = Inr None"
proof -
  have rej: "\<not> is_likely_text s" if "bytes_decode rt bs enc = Inr s" for enc s
  proof -
    from bytes_decode_keeps [OF assms(1) that]
    have "length s \<le> length bs" "control_bytes bs \<le> control_chars s" by simp_all
    with assms(2) have "3 * length s < 10 * control_chars s" by linarith
    then show ?thesis by (simp add: is_likely_text_iff)
  qed
  have "\<forall>t. \<not> accepted_fast rt bs t"
    using rej by (auto simp add: accepted_fast_def)
  moreover have "\<forall>enc \<in> set common_encodings. \<forall>t. \<not> accepted rt bs enc t"
    using rej by (auto simp add: accepted_def)
  ultimately show ?thesis
    by (simp add: decode_with_fallback_cases decode_loop_None_iff)
qed

text \<open>A table of decodings that keep the control bytes gives a runtime that does.\<close>

lemma keeps_controls_codecs_of:
  assumes "list_all (\<lambda>(e, b, r). case r of Inl x \<Rightarrow> True
             | Inr s \<Rightarrow> length s \<le> length b \<and> control_bytes b \<le> control_chars s) facts"
  shows "keeps_controls (codecs_of facts)"
  unfolding keeps_controls_def
proof (intro allI impI)
  fix enc bs s
  assume "codecs_of facts enc bs = Inr s"
  then have "map_of (map (\<lambda>(e, b, r). ((e, b), r)) facts) (enc, bs) = Some (Inr s)"
    by (simp add: codecs_of_def split: option.splits)
  then have "((enc, bs), Inr s) \<in> set (map (\<lambda>(e, b, r). ((e, b), r)) facts)"
    by (rule map_of_SomeD)
  then have "(enc, bs, Inr s) \<in> set facts" by auto
  with assms show "length s \<le> length bs \<and> control_bytes bs \<le> control_chars s"
    by (auto simp add: list_all_iff)
qed

lemma keeps_controls_binary: "keeps_controls (codecs_of cjk_on_binary)"
  by (rule keeps_controls_codecs_of)
    (simp add: cjk_on_binary_def control_bytes_def control_chars_def)

lemma binary_control_bytes:
  "3 * length binary_bom_nulls < 10 * control_bytes binary_bom_nulls"
  "3 * length binary_nulls < 10 * control_bytes binary_nulls"
  "3 * length binary_low_controls < 10 * control_bytes binary_low_controls"
  "3 * length binary_jpeg < 10 * control_bytes binary_jpeg"
  by (simp_all add: control_bytes_def control_chars_def binary_bom_nulls_def binary_nulls_def
      binary_low_controls_def binary_jpeg_def)

text \<open>
  Claim C7.  When, under every candidate that decodes the buffer, at least 70% of the
  decoded text is control code points (a share of a non-empty text), the engine returns
  \<^verbatim>\<open>None\<close>.  The four binary buffers of the test suite give \<^verbatim>\<open>None\<close> in every runtime
  whose multi-byte codecs keep the control bytes.
\<close>

theorem binary_gives_none:
  "((\<forall>enc \<in> set (''utf-8'' # common_encodings). \<forall>s. bytes_decode rt bs enc = Inr s \<longrightarrow>
        s \<noteq> [] \<and> (of_nat (control_chars s) :: rat) / of_nat (length s) \<ge> 7 / 10)
      \<longrightarrow> decode_with_fallback rt bs = Inr None)
   \<and> (keeps_controls rt \<longrightarrow>
        decode_with_fallback rt binary_bom_nulls = Inr None
        \<and> decode_with_fallback rt binary_nulls = Inr None
        \<and> decode_with_fallback rt binary_low_controls = Inr None
        \<and> decode_with_fallback rt binary_jpeg = Inr None)"
proof (intro conjI impI)
  assume h: "\<forall>enc \<in> set (''utf-8'' # common_encodings). \<forall>s. bytes_decode rt bs enc = Inr s \<longrightarrow>
        s \<noteq> [] \<and> (of_nat (control_chars s) :: rat) / of_nat (length s) \<ge> 7 / 10"
  have rej: "\<not> is_likely_text s"
    if "enc \<in> set (''utf-8'' # common_encodings)" "bytes_decode rt bs enc = Inr s" for enc s
  proof -
    from h that have ne: "s \<noteq> []"
      and r: "(of_nat (control_chars s) :: rat) / of_nat (length s) \<ge> 7 / 10" by blast+
    from ne have pos: "0 < length s" by simp
    from r rat_le_iff [of "length s" 10 7 "control_chars s", OF pos]
    have "7 * length s \<le> 10 * control_chars s" by (simp add: mult.commute)
    with pos have "3 * length s < 10 * control_chars s" by linarith
    then show ?thesis by (simp add: is_likely_text_iff)
  qed
  have "\<forall>t. \<not> accepted_fast rt bs t"
    using rej [of "''utf-8''"] by (auto simp add: accepted_fast_def)
  moreover have "\<forall>enc \<in> set common_encodings. \<forall>t. \<not> accepted rt bs enc t"
    using rej by (auto simp add: accepted_def)
  ultimately show "decode_with_fallback rt bs = Inr None"
    by (simp add: decode_with_fallback_cases decode_loop_None_iff)
next
  assume "keeps_controls rt"
  then show "decode_with_fallback rt binary_bom_nulls = Inr None"
    by (rule binary_rejected) (rule binary_control_bytes)
next
  assume "keeps_controls rt"
  then show "decode_with_fallback rt binary_nulls = Inr None"
    by (rule binary_rejected) (rule binary_control_bytes)
next
  assume "keeps_controls rt"
  then show "decode_with_fallback rt binary_low_controls = Inr None"
    by (rule binary_rejected) (rule binary_control_bytes)
next
  assume "keeps_controls rt"
  then show "decode_with_fallback rt binary_jpeg = Inr None"
    by (rule binary_rejected) (rule binary_control_bytes)
qed

lemma binary_nulls_decodings:
  "\<forall>enc \<in> set (''utf-8'' # common_encodings).
     \<forall>s. bytes_decode (codecs_of cjk_on_binary) binary_nulls enc = Inr s \<longrightarrow>
       s = map unat binary_nulls"
  by (simp add: common_encodings_def bytes_decode_def utf_8_decode_def latin_1_decode_def
      charmap_decode_def charmap_char_def codecs_of_def cjk_on_binary_def binary_bom_nulls_def
      binary_nulls_def binary_low_controls_def binary_jpeg_def)

theorem binary_gives_none_witness:
  "keeps_controls (codecs_of cjk_on_binary)
   \<and> bytes_decode (codecs_of cjk_on_binary) binary_nulls ''shift_jis''
       = Inr (map unat binary_nulls)
   \<and> map unat binary_nulls \<noteq> []
   \<and> (of_nat (control_chars (map unat binary_nulls)) :: rat)
       / of_nat (length (map unat binary_nulls)) \<ge> 7 / 10
   \<and> decode_with_fallback (codecs_of cjk_on_binary) binary_bom_nulls = Inr None
   \<and> decode_with_fallback (codecs_of cjk_on_binary) binary_nulls = Inr None
   \<and> decode_with_fallback (codecs_of cjk_on_binary) binary_low_controls = Inr None
   \<and> decode_with_fallback (codecs_of cjk_on_binary) binary_jpeg = Inr None"
proof -
  have a: "bytes_decode (codecs_of cjk_on_binary) binary_nulls ''shift_jis''
       = Inr (map unat binary_nulls)"
    by (simp add: bytes_decode_def codecs_of_def cjk_on_binary_def binary_bom_nulls_def
        binary_nulls_def)
  have b: "map unat binary_nulls \<noteq> []
     \<and> (of_nat (control_chars (map unat binary_nulls)) :: rat)
       / of_nat (length (map unat binary_nulls)) \<ge> 7 / 10"
    by (simp add: binary_nulls_def control_chars_def)
  have c: "\<forall>enc \<in> set (''utf-8'' # common_encodings).
     \<forall>s. bytes_decode (codecs_of cjk_on_binary) binary_nulls enc = Inr s \<longrightarrow>
        s \<noteq> [] \<and> (of_nat (control_chars s) :: rat) / of_nat (length s) \<ge> 7 / 10"
    using binary_nulls_decodings b by blast
  from binary_gives_none [of "codecs_of cjk_on_binary" binary_nulls] keeps_controls_binary a b c
  show ?thesis by blast
qed

section \<open>The UTF-8 round trip\<close>

text \<open>Arithmetic of the three- and four-byte forms.\<close>

lemma mod_le_63: "(n::nat) mod 0x40 \<le> 63"
proof -
  have "n mod 0x40 < 0x40" by simp
  then show ?thesis by linarith
qed

lemma split_3: "(c::nat) div 0x1000 * 0x1000 + c div 0x40 mod 0x40 * 0x40 + c mod 0x40 = c"
proof -
  have "c div 0x1000 = c div 0x40 div 0x40" by (simp add: div_mult2_eq)
  then have "c div 0x1000 * 0x40 + c div 0x40 mod 0x40 = c div 0x40" by simp
  then have "(c div 0x1000 * 0x40 + c div 0x40 mod 0x40) * 0x40 + c mod 0x40 = c" by simp
  then show ?thesis by (simp add: algebra_simps)
qed

lemma split_4:
  "(c::nat) div 0x40000 * 0x40000 + c div 0x1000 mod 0x40 * 0x1000 + c div 0x40 mod 0x40 * 0x40
     + c mod 0x40 = c"
proof -
  have "c div 0x40000 = c div 0x1000 div 0x40" by (simp add: div_mult2_eq)
  then have "c div 0x40000 * 0x40 + c div 0x1000 mod 0x40 = c div 0x1000" by simp
  then have "(c div 0x40000 * 0x40 + c div 0x1000 mod 0x40) * 0x1000
      + c div 0x40 mod 0x40 * 0x40 + c mod 0x40 = c"
    using split_3 [of c] by simp
  then show ?thesis by (simp add: algebra_simps)
qed

lemma mid_3:
  assumes "(c::nat) < 0x10000"
  shows "(c div 0x1000 = 0 \<longrightarrow> 0x800 \<le> c \<longrightarrow> 32 \<le> c div 0x40 mod 0x40)
       \<and> (c div 0x1000 = 13 \<longrightarrow> c < 0xD800 \<longrightarrow> c div 0x40 mod 0x40 \<le> 31)"
proof -
  have d: "c div 0x1000 = c div 0x40 div 0x40" by (simp add: div_mult2_eq)
  have m: "c div 0x40 = c div 0x1000 * 0x40 + c div 0x40 mod 0x40"
    unfolding d by simp
  show ?thesis
  proof (intro conjI impI)
    assume "c div 0x1000 = 0" "0x800 \<le> c"
    then have "c div 0x40 mod 0x40 = c div 0x40" using m by simp
    moreover have "32 \<le> c div 0x40" using \<open>0x800 \<le> c\<close> by arith
    ultimately show "32 \<le> c div 0x40 mod 0x40" by simp
  next
    assume "c div 0x1000 = 13" "c < 0xD800"
    then have "c div 0x40 = 13 * 0x40 + c div 0x40 mod 0x40" using m by simp
    moreover have "c div 0x40 < 0x360" using \<open>c < 0xD800\<close> by arith
    ultimately show "c div 0x40 mod 0x40 \<le> 31" by linarith
  qed
qed

lemma mid_4:
  assumes "(c::nat) \<le> 0x10FFFF"
  shows "(c div 0x40000 = 0 \<longrightarrow> 0x10000 \<le> c \<longrightarrow> 16 \<le> c div 0x1000 mod 0x40)
       \<and> (c div 0x40000 = 4 \<longrightarrow> c div 0x1000 mod 0x40 \<le> 15)"
proof -
  have d: "c div 0x40000 = c div 0x1000 div 0x40" by (simp add: div_mult2_eq)
  have m: "c div 0x1000 = c div 0x40000 * 0x40 + c div 0x1000 mod 0x40"
    unfolding d by simp
  show ?thesis
  proof (intro conjI impI)
    assume "c div 0x40000 = 0" "0x10000 \<le> c"
    then have "c div 0x1000 mod 0x40 = c div 0x1000" using m by simp
    moreover have "16 \<le> c div 0x1000" using \<open>0x10000 \<le> c\<close> by arith
    ultimately show "16 \<le> c div 0x1000 mod 0x40" by simp
  next
    assume "c div 0x40000 = 4"
    then have "c div 0x1000 = 4 * 0x40 + c div 0x1000 mod 0x40" using m by simp
    moreover have "c div 0x1000 < 0x110" using assms by arith
    ultimately show "c div 0x1000 mod 0x40 \<le> 15" by linarith
  qed
qed

text \<open>The decoder reads back each of the four forms the encoder writes.\<close>

lemma utf_8_scan_1:
  assumes "c < 0x80"
  shows "utf_8_scan ([c] @ rest) = map_option ((#) c) (utf_8_scan rest)"
  using assms by simp

lemma utf_8_scan_2:
  assumes "0x80 \<le> c" "c < 0x800"
  shows "utf_8_scan ([0xC0 + c div 0x40, 0x80 + c mod 0x40] @ rest)
         = map_option ((#) c) (utf_8_scan rest)"
proof -
  have a: "2 \<le> c div 0x40" "c div 0x40 \<le> 31" using assms by arith+
  have b: "c mod 0x40 \<le> 63" by (rule mod_le_63)
  have v: "c div 0x40 * 0x40 + c mod 0x40 = c" by simp
  show ?thesis using a b v by (simp add: continuation_def)
qed

lemma utf_8_scan_3:
  assumes "0x800 \<le> c" "c < 0x10000" "\<not> (0xD800 \<le> c \<and> c \<le> 0xDFFF)"
  shows "utf_8_scan ([0xE0 + c div 0x1000, 0x80 + c div 0x40 mod 0x40, 0x80 + c mod 0x40] @ rest)
         = map_option ((#) c) (utf_8_scan rest)"
proof -
  have a: "c div 0x1000 \<le> 15" using assms by arith
  have b: "c div 0x40 mod 0x40 \<le> 63" "c mod 0x40 \<le> 63"
    by (rule mod_le_63)+
  have e0: "c div 0x1000 = 0 \<Longrightarrow> 32 \<le> c div 0x40 mod 0x40"
    using mid_3 [OF assms(2)] assms(1) by blast
  have "c < 0xD800 \<or> 0xE000 \<le> c" using assms(3) by linarith
  moreover have "c div 0x1000 = 13 \<Longrightarrow> c < 0xE000" by arith
  ultimately have ed: "c div 0x1000 = 13 \<Longrightarrow> c div 0x40 mod 0x40 \<le> 31"
    using mid_3 [OF assms(2)] by fastforce
  note v = split_3 [of c]
  show ?thesis using a b e0 ed v by (simp add: continuation_def)
qed

lemma utf_8_scan_4:
  assumes "0x10000 \<le> c" "c \<le> 0x10FFFF"
  shows "utf_8_scan ([0xF0 + c div 0x40000, 0x80 + c div 0x1000 mod 0x40,
                      0x80 + c div 0x40 mod 0x40, 0x80 + c mod 0x40] @ rest)
         = map_option ((#) c) (utf_8_scan rest)"
proof -
  have a: "c div 0x40000 \<le> 4" using assms by arith
  have b: "c div 0x1000 mod 0x40 \<le> 63" "c div 0x40 mod 0x40 \<le> 63" "c mod 0x40 \<le> 63"
    by (rule mod_le_63)+
  have f0: "c div 0x40000 = 0 \<Longrightarrow> 16 \<le> c div 0x1000 mod 0x40"
    using mid_4 [OF assms(2)] assms(1) by blast
  have f4: "c div 0x40000 = 4 \<Longrightarrow> c div 0x1000 mod 0x40 \<le> 15"
    using mid_4 [OF assms(2)] by blast
  note v = split_4 [of c]
  show ?thesis using a b f0 f4 v by (simp add: continuation_def)
qed

lemma utf_8_scan_encode_char:
  assumes "c \<le> 0x10FFFF" and "utf_8_encode_char c = Some bs"
  shows "utf_8_scan (bs @ rest) = map_option ((#) c) (utf_8_scan rest)"
proof -
  consider "c < 0x80" | "0x80 \<le> c" "c < 0x800"
    | "0x800 \<le> c" "c < 0x10000" | "0x10000 \<le> c" by linarith
  then show ?thesis
  proof cases
    case 1
    with assms(2) have "bs = [c]" by (simp add: utf_8_encode_char_def)
    then show ?thesis using utf_8_scan_1 [OF 1, of rest] by (simp only:)
  next
    case 2
    with assms(2) have "bs = [0xC0 + c div 0x40, 0x80 + c mod 0x40]"
      by (simp add: utf_8_encode_char_def)
    then show ?thesis using utf_8_scan_2 [OF 2, of rest] by (simp only:)
  next
    case 3
    with assms(2) have ns: "\<not> (0xD800 \<le> c \<and> c \<le> 0xDFFF)"
      and "bs = [0xE0 + c div 0x1000, 0x80 + c div 0x40 mod 0x40, 0x80 + c mod 0x40]"
      by (auto simp add: utf_8_encode_char_def split: if_splits)
    then show ?thesis using utf_8_scan_3 [OF 3 ns, of rest] by (simp only:)
  next
    case 4
    with assms(2) have "bs = [0xF0 + c div 0x40000, 0x80 + c div 0x1000 mod 0x40,
                 0x80 + c div 0x40 mod 0x40, 0x80 + c mod 0x40]"
      by (simp add: utf_8_encode_char_def)
    then show ?thesis using utf_8_scan_4 [OF 4 assms(1), of rest] by (simp only:)
  qed
qed

lemma utf_8_encode_char_bytes:
  assumes "c \<le> 0x10FFFF" and "utf_8_encode_char c = Some bs"
  shows "list_all (\<lambda>b. b < 256) bs"
proof -
  have "c div 0x40 \<le> 31" if "c < 0x800" using that by arith
  moreover have "c div 0x1000 \<le> 15" if "c < 0x10000" using that by arith
  moreover have "c div 0x40000 \<le> 4" using assms(1) by arith
  moreover have "c mod 0x40 < 0x40" "c div 0x40 mod 0x40 < 0x40" "c div 0x1000 mod 0x40 < 0x40"
    by simp_all
  ultimately show ?thesis
    using assms(2) by (auto simp add: utf_8_encode_char_def split: if_splits)
qed

lemma utf_8_scan_encode:
  "is_str s \<Longrightarrow> utf_8_encode_nat s = Some bs
   \<Longrightarrow> utf_8_scan bs = Some s \<and> list_all (\<lambda>b. b < 256) bs"
proof (induction s arbitrary: bs)
  case Nil
  then show ?case by simp
next
  case (Cons c s)
  from Cons.prems(1) have c: "c \<le> 0x10FFFF" and s: "is_str s"
    by (simp_all add: is_str_def)
  from Cons.prems(2) obtain cs ss where cs: "utf_8_encode_char c = Some cs"
    and ss: "utf_8_encode_nat s = Some ss" and bs: "bs = cs @ ss"
    by (auto split: option.splits)
  from Cons.IH [OF s ss] have ih: "utf_8_scan ss = Some s" "list_all (\<lambda>b. b < 256) ss"
    by simp_all
  from utf_8_scan_encode_char [OF c cs, of ss] ih(1) have "utf_8_scan (cs @ ss) = Some (c # s)"
    by simp
  with utf_8_encode_char_bytes [OF c cs] ih(2) bs show ?case by simp
qed

lemma map_unat_of_nat:
  "list_all (\<lambda>b. b < 256) bs \<Longrightarrow> map unat (map of_nat bs :: 8 word list) = bs"
  by (induction bs) (simp_all add: unat_of_nat)

text \<open>Decoding undoes encoding, for UTF-8.\<close>

lemma utf_8_decode_encode:
  assumes "is_str s" and "utf_8_encode s = Some bs"
  shows "utf_8_decode bs = Inr s"
proof -
  from assms(2) obtain ns where ns: "utf_8_encode_nat s = Some ns" and bs: "bs = map of_nat ns"
    by (auto simp add: utf_8_encode_def)
  from utf_8_scan_encode [OF assms(1) ns] map_unat_of_nat [of ns] bs
  show ?thesis by (simp add: utf_8_decode_def)
qed

section \<open>The test suite\<close>

text \<open>The result of the engine always passes the plausibility filter.\<close>

lemma result_is_likely:
  assumes "decode_with_fallback rt bs = Inr (Some s)"
  shows "is_likely_text s"
proof (cases "\<exists>t. accepted_fast rt bs t")
  case True
  then obtain t where t: "accepted_fast rt bs t" ..
  then have "decode_with_fallback rt bs = Inr (Some t)"
    by (simp add: decode_with_fallback_def accepted_fast_def)
  with assms t show ?thesis by (simp add: accepted_fast_def)
next
  case False
  with assms have "decode_loop rt bs common_encodings = Some s"
    by (simp add: decode_with_fallback_cases)
  then obtain i where "accepted rt bs (common_encodings ! i) s"
    by (auto simp add: decode_loop_Some_iff)
  then show ?thesis by (simp add: accepted_def)
qed

text \<open>The UTF-8 round trip through the engine.\<close>

lemma utf_8_round_trip:
  assumes "is_str s" and "utf_8_encode s = Some bs" and "is_likely_text s"
  shows "decode_with_fallback rt bs = Inr (Some s)"
  using utf_8_decode_encode [OF assms(1,2)] assms(3)
  by (simp add: decode_with_fallback_def bytes_decode_utf_8)

lemma utf_8_text_encoded: "is_str utf_8_text \<and> utf_8_encode utf_8_text = Some utf_8_bytes"
  by (simp add: is_str_def utf_8_text_def utf_8_bytes_def utf_8_encode_def utf_8_encode_char_def)

lemma utf_8_text_likely: "is_likely_text utf_8_text"
  by (simp add: utf_8_text_def heuristics_defs)

text \<open>The engine on the buffers of the test suite that are detected.\<close>

lemma detected_cp1252:
  assumes "agrees rt cjk_on_detected"
  shows "decode_with_fallback rt cp1252_bytes = Inr (Some cp1252_text)"
proof -
  from assms have f: "rt ''shift_jis'' cp1252_bytes = Inl UnicodeDecodeError"
    "rt ''euc-kr'' cp1252_bytes = Inl UnicodeDecodeError"
    "rt ''big5'' cp1252_bytes = Inl UnicodeDecodeError"
    "rt ''gbk'' cp1252_bytes = Inl UnicodeDecodeError"
    "rt ''gb2312'' cp1252_bytes = Inl UnicodeDecodeError"
    by (simp_all add: agrees_def cjk_on_detected_def)
  have u: "utf_8_decode cp1252_bytes = Inl UnicodeDecodeError"
    by (simp add: utf_8_decode_def cp1252_bytes_def continuation_def)
  have d: "charmap_decode cp1251_table cp1252_bytes = Inr cp1252_text"
    by (simp add: charmap_decode_def charmap_char_def cp1251_table_def cp1252_bytes_def
        cp1252_text_def)
  have h: "is_likely_text cp1252_text"
    "\<not> is_likely_misencoded_asian_text cp1252_text ''cp1251''"
    "\<not> is_likely_misencoded_cross_asian cp1252_text ''cp1251''"
    by (simp_all add: cp1252_text_def heuristics_defs)
  show ?thesis
    by (simp add: decode_with_fallback_def bytes_decode_def common_encodings_def u f d h)
qed

lemma detected_shift_jis:
  assumes "agrees rt cjk_on_detected"
  shows "decode_with_fallback rt shift_jis_bytes = Inr (Some shift_jis_text)"
proof -
  from assms have f: "rt ''shift_jis'' shift_jis_bytes = Inr shift_jis_text"
    by (simp_all add: agrees_def cjk_on_detected_def)
  have u: "utf_8_decode shift_jis_bytes = Inl UnicodeDecodeError"
    by (simp add: utf_8_decode_def shift_jis_bytes_def continuation_def)
  have h: "is_likely_text shift_jis_text"
    "\<not> is_likely_misencoded_asian_text shift_jis_text ''shift_jis''"
    "\<not> is_likely_misencoded_cross_asian shift_jis_text ''shift_jis''"
    by (simp_all add: shift_jis_text_def heuristics_defs)
  show ?thesis
    by (simp add: decode_with_fallback_def bytes_decode_def common_encodings_def u f h)
qed

lemma detected_euc_kr:
  assumes "agrees rt cjk_on_detected"
  shows "decode_with_fallback rt euc_kr_bytes = Inr (Some euc_kr_text)"
proof -
  from assms have f: "rt ''shift_jis'' euc_kr_bytes = Inl UnicodeDecodeError"
    "rt ''euc-kr'' euc_kr_bytes = Inr euc_kr_text"
    by (simp_all add: agrees_def cjk_on_detected_def)
  have u: "utf_8_decode euc_kr_bytes = Inl UnicodeDecodeError"
    by (simp add: utf_8_decode_def euc_kr_bytes_def continuation_def)
  have h: "is_likely_text euc_kr_text"
    "\<not> is_likely_misencoded_asian_text euc_kr_text ''euc-kr''"
    "\<not> is_likely_misencoded_cross_asian euc_kr_text ''euc-kr''"
    by (simp_all add: euc_kr_text_def heuristics_defs)
  show ?thesis
    by (simp add: decode_with_fallback_def bytes_decode_def common_encodings_def u f h)
qed

lemma detected_big5:
  assumes "agrees rt cjk_on_detected"
  shows "decode_with_fallback rt big5_bytes = Inr (Some big5_text)"
proof -
  from assms have f: "rt ''shift_jis'' big5_bytes = Inl UnicodeDecodeError"
    "rt ''euc-kr'' big5_bytes = Inl UnicodeDecodeError"
    "rt ''big5'' big5_bytes = Inr big5_text"
    by (simp_all add: agrees_def cjk_on_detected_def)
  have u: "utf_8_decode big5_bytes = Inl UnicodeDecodeError"
    by (simp add: utf_8_decode_def big5_bytes_def continuation_def)
  have h: "is_likely_text big5_text"
    "\<not> is_likely_misencoded_asian_text big5_text ''big5''"
    "\<not> is_likely_misencoded_cross_asian big5_text ''big5''"
    by (simp_all add: big5_text_def heuristics_defs)
  show ?thesis
    by (simp add: decode_with_fallback_def bytes_decode_def common_encodings_def u f h)
qed

lemma detected_cp1251:
  assumes "agrees rt cjk_on_detected"
  shows "decode_with_fallback rt cp1251_bytes = Inr (Some cp1251_text)"
proof -
  from assms have f: "rt ''shift_jis'' cp1251_bytes = Inl UnicodeDecodeError"
    "rt ''euc-kr'' cp1251_bytes = Inl UnicodeDecodeError"
    "rt ''big5'' cp1251_bytes = Inl UnicodeDecodeError"
    "rt ''gbk'' cp1251_bytes = Inl UnicodeDecodeError"
    "rt ''gb2312'' cp1251_bytes = Inl UnicodeDecodeError"
    by (simp_all add: agrees_def cjk_on_detected_def)
  show ?thesis
    by (simp add: decode_with_fallback_def bytes_decode_def common_encodings_def utf_8_cp1251 f
        cp1251_cp1251 cp1251_text_checks)
qed

lemma agrees_codecs_of_detected: "agrees (codecs_of cjk_on_detected) cjk_on_detected"
  by (simp add: agrees_def codecs_of_def cjk_on_detected_def cp1252_bytes_def
      shift_jis_bytes_def euc_kr_bytes_def big5_bytes_def cp1251_bytes_def)

text \<open>
  Claim C6, as amended.  For every Python string without surrogates that passes the
  plausibility filter (at most 30% control code points), encoding it as UTF-8 and
  running the engine returns the string; so it is for the UTF-8 test string.  For the
  five other documented test strings (cp1252 with the trademark sign, Shift-JIS, EUC-KR,
  Big5, cp1251) the engine returns the original string, in every runtime whose
  multi-byte codecs decode the test buffers as CPython's do.
\<close>

theorem round_trip:
  "(is_str s \<and> utf_8_encode s = Some bs \<and> is_likely_text s
      \<longrightarrow> decode_with_fallback rt bs = Inr (Some s))
   \<and> utf_8_encode utf_8_text = Some utf_8_bytes
   \<and> decode_with_fallback rt utf_8_bytes = Inr (Some utf_8_text)
   \<and> (agrees rt cjk_on_detected \<longrightarrow>
        decode_with_fallback rt cp1252_bytes = Inr (Some cp1252_text)
        \<and> decode_with_fallback rt shift_jis_bytes = Inr (Some shift_jis_text)
        \<and> decode_with_fallback rt euc_kr_bytes = Inr (Some euc_kr_text)
        \<and> decode_with_fallback rt big5_bytes = Inr (Some big5_text)
        \<and> decode_with_fallback rt cp1251_bytes = Inr (Some cp1251_text))"
proof (intro conjI impI)
  assume "is_str s \<and> utf_8_encode s = Some bs \<and> is_likely_text s"
  then show "decode_with_fallback rt bs = Inr (Some s)"
    using utf_8_round_trip by blast
next
  show "utf_8_encode utf_8_text = Some utf_8_bytes"
    using utf_8_text_encoded by blast
next
  show "decode_with_fallback rt utf_8_bytes = Inr (Some utf_8_text)"
    using utf_8_round_trip utf_8_text_encoded utf_8_text_likely by blast
next
  assume "agrees rt cjk_on_detected"
  then show "decode_with_fallback rt cp1252_bytes = Inr (Some cp1252_text)"
    by (rule detected_cp1252)
next
  assume "agrees rt cjk_on_detected"
  then show "decode_with_fallback rt shift_jis_bytes = Inr (Some shift_jis_text)"
    by (rule detected_shift_jis)
next
  assume "agrees rt cjk_on_detected"
  then show "decode_with_fallback rt euc_kr_bytes = Inr (Some euc_kr_text)"
    by (rule detected_euc_kr)
next
  assume "agrees rt cjk_on_detected"
  then show "decode_with_fallback rt big5_bytes = Inr (Some big5_text)"
    by (rule detected_big5)
next
  assume "agrees rt cjk_on_detected"
  then show "decode_with_fallback rt cp1251_bytes = Inr (Some cp1251_text)"
    by (rule detected_cp1251)
qed

theorem round_trip_witness:
  "is_str [0x48, 0xE9, 0x4E16, 0x1F600]
   \<and> utf_8_encode [0x48, 0xE9, 0x4E16, 0x1F600]
       = Some [0x48, 0xC3, 0xA9, 0xE4, 0xB8, 0x96, 0xF0, 0x9F, 0x98, 0x80]
   \<and> is_likely_text [0x48, 0xE9, 0x4E16, 0x1F600]
   \<and> decode_with_fallback (codecs_of cjk_on_detected)
         [0x48, 0xC3, 0xA9, 0xE4, 0xB8, 0x96, 0xF0, 0x9F, 0x98, 0x80]
       = Inr (Some [0x48, 0xE9, 0x4E16, 0x1F600])
   \<and> decode_with_fallback (codecs_of cjk_on_detected) utf_8_bytes = Inr (Some utf_8_text)
   \<and> agrees (codecs_of cjk_on_detected) cjk_on_detected
   \<and> decode_with_fallback (codecs_of cjk_on_detected) cp1252_bytes = Inr (Some cp1252_text)
   \<and> decode_with_fallback (codecs_of cjk_on_detected) shift_jis_bytes = Inr (Some shift_jis_text)
   \<and> decode_with_fallback (codecs_of cjk_on_detected) euc_kr_bytes = Inr (Some euc_kr_text)
   \<and> decode_with_fallback (codecs_of cjk_on_detected) big5_bytes = Inr (Some big5_text)
   \<and> decode_with_fallback (codecs_of cjk_on_detected) cp1251_bytes = Inr (Some cp1251_text)"
proof -
  have a: "is_str [0x48, 0xE9, 0x4E16, 0x1F600]"
    by (simp add: is_str_def)
  have b: "utf_8_encode [0x48, 0xE9, 0x4E16, 0x1F600]
       = Some [0x48, 0xC3, 0xA9, 0xE4, 0xB8, 0x96, 0xF0, 0x9F, 0x98, 0x80]"
    by (simp add: utf_8_encode_def utf_8_encode_char_def)
  have c: "is_likely_text [0x48, 0xE9, 0x4E16, 0x1F600]"
    by (simp add: heuristics_defs)
  from round_trip [of "[0x48, 0xE9, 0x4E16, 0x1F600]"
      "[0x48, 0xC3, 0xA9, 0xE4, 0xB8, 0x96, 0xF0, 0x9F, 0x98, 0x80]" "codecs_of cjk_on_detected"]
    a b c agrees_codecs_of_detected
  show ?thesis by blast
qed

text \<open>
  The claim as stated fails.  The string of the code points 1 to 5 is encoded in UTF-8
  as the buffer of five low control bytes, on which the engine returns \<^verbatim>\<open>None\<close>.  A
  cp1252 text with the trademark sign and a cp1251 text whose buffers are valid UTF-8
  come back as their UTF-8 reading.
\<close>

theorem round_trip_counterexample:
  "is_str [1, 2, 3, 4, 5]
   \<and> utf_8_encode [1, 2, 3, 4, 5] = Some binary_low_controls
   \<and> decode_with_fallback (codecs_of cjk_on_binary) binary_low_controls = Inr None
   \<and> charmap_decode cp1252_table [0xC3, 0x99] = Inr [0xC3, 0x2122]
   \<and> decode_with_fallback (codecs_of cjk_on_binary) [0xC3, 0x99] = Inr (Some [0xD9])
   \<and> charmap_decode cp1251_table [0xD0, 0xB0] = Inr [0x420, 0xB0]
   \<and> decode_with_fallback (codecs_of cjk_on_binary) [0xD0, 0xB0] = Inr (Some [0x430])"
proof (intro conjI)
  show "is_str [1, 2, 3, 4, 5]" by (simp add: is_str_def)
  show "utf_8_encode [1, 2, 3, 4, 5] = Some binary_low_controls"
    by (simp add: utf_8_encode_def utf_8_encode_char_def binary_low_controls_def)
  show "decode_with_fallback (codecs_of cjk_on_binary) binary_low_controls = Inr None"
    using keeps_controls_binary binary_control_bytes(3) by (rule binary_rejected)
  show "charmap_decode cp1252_table [0xC3, 0x99] = Inr [0xC3, 0x2122]"
    by (simp add: charmap_decode_def charmap_char_def cp1252_table_def)
  show "decode_with_fallback (codecs_of cjk_on_binary) [0xC3, 0x99] = Inr (Some [0xD9])"
    by (simp add: decode_with_fallback_def bytes_decode_utf_8 utf_8_decode_def continuation_def
        heuristics_defs)
  show "charmap_decode cp1251_table [0xD0, 0xB0] = Inr [0x420, 0xB0]"
    by (simp add: charmap_decode_def charmap_char_def cp1251_table_def)
  show "decode_with_fallback (codecs_of cjk_on_binary) [0xD0, 0xB0] = Inr (Some [0x430])"
    by (simp add: decode_with_fallback_def bytes_decode_utf_8 utf_8_decode_def continuation_def
        heuristics_defs)
qed






text \<open>The two single-byte buffers are the encodings of their strings.\<close>

lemma misdetected_buffers:
  "latin_1_decode iso_8859_1_bytes = Inr iso_8859_1_text"
  "charmap_decode iso_8859_2_table iso_8859_2_bytes = Inr iso_8859_2_text"
  by (simp_all add: latin_1_decode_def charmap_decode_def charmap_char_def iso_8859_2_table_def
      iso_8859_1_bytes_def iso_8859_1_text_def iso_8859_2_bytes_def iso_8859_2_text_def)



end
